theory Spec2Isabelle
  imports Complex_Main "HOL-Library.Multiset" "HOL-Library.Log_Nat" "HOL-Library.FuncSet"
begin

section \<open>The reveal animation of the Rencontres tab (src/app/page.tsx)\<close>

text \<open>
  The development embeds the progressive reveal of \<^verbatim>\<open>src/app/page.tsx\<close>:
  \<^verbatim>\<open>initRevealDots\<close>, \<^verbatim>\<open>startRevealAnimation\<close> with its frame callback
  \<^verbatim>\<open>reveal\<close>, \<^verbatim>\<open>togglePaletteColor\<close>, the two mode-toggle handlers and
  \<^verbatim>\<open>handleGeneratePalette\<close>. The Crop variants (\<^verbatim>\<open>initRevealDotsCrop\<close>,
  \<^verbatim>\<open>startRevealAnimationCrop\<close>, \<^verbatim>\<open>handleGenerateCrop\<close>) are the same text over
  the Crop refs and state variables.
\<close>

subsection \<open>JavaScript numbers\<close>

text \<open>
  A JavaScript number is an IEEE-754 binary64 value. The model keeps the special
  values \<open>NaN\<close> and the two infinities, which division by zero produces, and
  represents a finite value by the rational it denotes. The operators \<^verbatim>\<open>/\<close> and
  \<^verbatim>\<open>*\<close> round the exact result to the nearest value with a 53-bit significand,
  ties to the even significand (\<open>round_double\<close>). The exponent range is not
  bounded: the operands that occur here are array indices, array lengths, totals
  and values of \<^verbatim>\<open>Math.random()\<close>, and for them a result is either in the normal
  range of binary64, where \<open>round_double\<close> is the IEEE rounding, or a product below 1,
  whose floor is 0 under both. Signed zero is not distinguished.
\<close>

text \<open>Rounding to the nearest integer, ties to the even one.\<close>

definition round_half_even :: "rat \<Rightarrow> int" where
  "round_half_even z =
     (let f = \<lfloor>z\<rfloor>; d = z - of_int f
      in if d < 1 / 2 then f else if 1 / 2 < d then f + 1 else if even f then f else f + 1)"

text \<open>The binary exponent of a positive \<open>x\<close>: the \<open>e\<close> with \<open>2 ^ e \<le> x < 2 ^ (e + 1)\<close>.\<close>

definition ilog2 :: "rat \<Rightarrow> int" where
  "ilog2 x =
     (if 1 \<le> x then int (floorlog 2 (nat \<lfloor>x\<rfloor>)) - 1
      else - int (floorlog 2 (nat \<lceil>1 / x\<rceil> - 1)))"

text \<open>
  The double nearest to \<open>x\<close>: the significand \<open>\<bar>x\<bar> / 2 ^ (e - 52)\<close>, which lies between
  \<open>2 ^ 52\<close> and \<open>2 ^ 53\<close>, is rounded to an integer.
\<close>

definition round_double :: "rat \<Rightarrow> rat" where
  "round_double x =
     (if x = 0 then 0
      else (let u = 2 powi (ilog2 \<bar>x\<bar> - 52)
            in sgn x * of_int (round_half_even (\<bar>x\<bar> / u)) * u))"

text \<open>The rationals that are doubles.\<close>

definition is_double :: "rat \<Rightarrow> bool" where
  "is_double x \<longleftrightarrow> round_double x = x"

datatype jsnum = Fin rat | PosInf | NegInf | NaN

text \<open>\<^verbatim>\<open>a / b\<close> for finite operands.\<close>

definition js_div :: "rat \<Rightarrow> rat \<Rightarrow> jsnum" where
  "js_div a b =
     (if b = 0 then (if a = 0 then NaN else if 0 < a then PosInf else NegInf)
      else Fin (round_double (a / b)))"

text \<open>\<^verbatim>\<open>v * t\<close> for a finite right operand.\<close>

fun js_mul :: "jsnum \<Rightarrow> rat \<Rightarrow> jsnum" where
  "js_mul (Fin a) t = Fin (round_double (a * t))"
| "js_mul PosInf t = (if t = 0 then NaN else if 0 < t then PosInf else NegInf)"
| "js_mul NegInf t = (if t = 0 then NaN else if 0 < t then NegInf else PosInf)"
| "js_mul NaN t = NaN"

text \<open>\<^verbatim>\<open>Math.floor\<close>.\<close>

fun js_floor :: "jsnum \<Rightarrow> jsnum" where
  "js_floor (Fin a) = Fin (of_int \<lfloor>a\<rfloor>)"
| "js_floor v = v"

text \<open>\<^verbatim>\<open>a <= b\<close>: every comparison with \<open>NaN\<close> is false.\<close>

fun js_le :: "jsnum \<Rightarrow> jsnum \<Rightarrow> bool" where
  "js_le NaN _ = False"
| "js_le _ NaN = False"
| "js_le NegInf _ = True"
| "js_le _ PosInf = True"
| "js_le (Fin a) (Fin b) = (a \<le> b)"
| "js_le _ _ = False"

subsection \<open>Data\<close>

text \<open>An element \<^verbatim>\<open>{ x, y }\<close> of the array \<^verbatim>\<open>dots\<close>.\<close>

record dot =
  dot_x :: nat
  dot_y :: nat

text \<open>
  The canvas element with its 2d context. Only two drawing calls occur:
  \<^verbatim>\<open>fillRect(0, 0, canvas.width, canvas.height)\<close> with the white fill style, which
  covers the whole canvas, and \<^verbatim>\<open>clearRect(x, y, 1, 1)\<close>, which uncovers one pixel.
  \<open>filled\<close> records that the covering paint has been applied; \<open>cleared\<close> is the log
  of the \<^verbatim>\<open>clearRect\<close> calls since then, in call order.
\<close>

record canvas =
  width :: nat
  height :: nat
  filled :: bool
  cleared :: "(nat \<times> nat) list"

definition fillRect :: "canvas \<Rightarrow> canvas" where
  "fillRect cv = cv\<lparr>filled := True, cleared := []\<rparr>"

definition clearRect :: "nat \<Rightarrow> nat \<Rightarrow> canvas \<Rightarrow> canvas" where
  "clearRect px py cv = cv\<lparr>cleared := cleared cv @ [(px, py)]\<rparr>"

text \<open>A pixel shows the covering colour when it was painted and not cleared since.\<close>

definition covered :: "canvas \<Rightarrow> nat \<times> nat \<Rightarrow> bool" where
  "covered cv p \<longleftrightarrow> filled cv \<and> p \<notin> set (cleared cv)"

datatype ColorKey = Bleu | Rouge | Vert | Jaune | Orange | Marron | Gris | Violet

datatype mode = Nuages | Brumes

text \<open>
  The parsed body of the generation response (\<^verbatim>\<open>PaletteResult\<close>, or an object
  with an \<^verbatim>\<open>error\<close> field). \<open>None\<close> is an absent field.
\<close>

record response =
  data_error :: "string option"
  data_count :: int
  data_total_available :: "int option"
  data_preview :: string
  data_full :: "string option"

text \<open>
  The variables the callback \<^verbatim>\<open>reveal\<close> closes over: the array \<^verbatim>\<open>dots\<close> read from
  \<^verbatim>\<open>dotsRef.current\<close> when the animation starts, the cursor \<^verbatim>\<open>currentIndex\<close> and
  the argument \<^verbatim>\<open>totalCount\<close>. The constant \<^verbatim>\<open>dotsPerFrame\<close> is computed once from
  \<^verbatim>\<open>dots.length\<close>, and no code changes the length of a shuffled array, so it is a
  function of \<open>dots\<close>.
\<close>

record reveal_closure =
  dots :: "dot list"
  currentIndex :: nat
  totalCount :: int

text \<open>
  The component's refs and state variables for the Rencontres tab, together with
  the browser's table of requested animation frames (\<open>frames\<close>, from handle to
  callback) and the next handle \<^verbatim>\<open>requestAnimationFrame\<close> returns.
\<close>

record page =
  canvasRef :: "canvas option"
  animationRef :: "nat option"
  dotsRef :: "dot list"
  palettePreview :: "string option"
  paletteResult :: "response option"
  paletteCount :: jsnum
  revealProgress :: jsnum
  paletteError :: "string option"
  isPaletteGenerating :: bool
  isPaletteRevealing :: bool
  rencontresMode :: mode
  selectedPaletteColors :: "ColorKey set"
  frames :: "nat \<rightharpoonup> reveal_closure"
  nextHandle :: nat

subsection \<open>The frame scheduler\<close>

definition requestAnimationFrame :: "reveal_closure \<Rightarrow> page \<Rightarrow> nat \<times> page" where
  "requestAnimationFrame cb s =
     (nextHandle s,
      s\<lparr>frames := (frames s)(nextHandle s \<mapsto> cb), nextHandle := Suc (nextHandle s)\<rparr>)"

definition cancelAnimationFrame :: "nat \<Rightarrow> page \<Rightarrow> page" where
  "cancelAnimationFrame h s = s\<lparr>frames := (frames s)(h := None)\<rparr>"

subsection \<open>initRevealDots\<close>

text \<open>
  The nested loops \<^verbatim>\<open>for y ... for x ... dots.push({ x, y })\<close> with step
  \<^verbatim>\<open>dotSize = 1\<close>.
\<close>

definition grid :: "nat \<Rightarrow> nat \<Rightarrow> dot list" where
  "grid w h = concat (map (\<lambda>py. map (\<lambda>px. \<lparr>dot_x = px, dot_y = py\<rparr>) [0..<w]) [0..<h])"

text \<open>\<^verbatim>\<open>[dots[i], dots[j]] = [dots[j], dots[i]]\<close>, for indices inside the array.\<close>

definition swap :: "nat \<Rightarrow> nat \<Rightarrow> 'a list \<Rightarrow> 'a list" where
  "swap i j ds = ds[i := ds ! j, j := ds ! i]"

text \<open>
  The shuffle loop \<^verbatim>\<open>for (let i = dots.length - 1; i > 0; i--)\<close>. Each iteration
  calls \<^verbatim>\<open>Math.random()\<close> once; \<open>rnd i\<close> is the value it returns in the iteration
  with index \<open>i\<close>, a double that is at least 0 and below 1. \<open>random_index rnd i\<close> is
  \<^verbatim>\<open>Math.floor(Math.random() * (i + 1))\<close>, and \<open>shuffle_from rnd k ds\<close> runs the
  iterations \<open>k, k - 1, ..., 1\<close>.
\<close>

definition random_index :: "(nat \<Rightarrow> rat) \<Rightarrow> nat \<Rightarrow> nat" where
  "random_index rnd i = nat \<lfloor>round_double (rnd i * of_nat (i + 1))\<rfloor>"

fun shuffle_from :: "(nat \<Rightarrow> rat) \<Rightarrow> nat \<Rightarrow> 'a list \<Rightarrow> 'a list" where
  "shuffle_from rnd 0 ds = ds"
| "shuffle_from rnd (Suc k) ds =
     shuffle_from rnd k (swap (Suc k) (random_index rnd (Suc k)) ds)"

definition shuffle :: "(nat \<Rightarrow> rat) \<Rightarrow> 'a list \<Rightarrow> 'a list" where
  "shuffle rnd ds = shuffle_from rnd (length ds - 1) ds"

text \<open>
  \<^verbatim>\<open>initRevealDots\<close> returns \<^verbatim>\<open>dots.length\<close>, or nothing when the canvas (or its
  context) is not available.
\<close>

definition initRevealDots :: "(nat \<Rightarrow> rat) \<Rightarrow> page \<Rightarrow> page \<times> nat option" where
  "initRevealDots rnd s =
     (case canvasRef s of
        None \<Rightarrow> (s, None)
      | Some cv \<Rightarrow>
          (let ds = shuffle rnd (grid (width cv) (height cv))
           in (s\<lparr>dotsRef := ds, canvasRef := Some (fillRect cv)\<rparr>, Some (length ds))))"

subsection \<open>startRevealAnimation\<close>

definition dotsPerFrame :: "'a list \<Rightarrow> nat" where
  "dotsPerFrame ds = max 2000 (length ds div 200)"

text \<open>The loop \<^verbatim>\<open>for (let i = currentIndex; i < endIndex; i++) ctx.clearRect(...)\<close>.\<close>

definition clear_dots :: "dot list \<Rightarrow> nat \<Rightarrow> nat \<Rightarrow> canvas \<Rightarrow> canvas" where
  "clear_dots ds start endIndex cv =
     foldl (\<lambda>c i. clearRect (dot_x (ds ! i)) (dot_y (ds ! i)) c) cv [start..<endIndex]"

text \<open>The local constant \<^verbatim>\<open>revealed\<close> and the argument of \<^verbatim>\<open>setRevealProgress\<close>.\<close>

definition progress_of :: "nat \<Rightarrow> nat \<Rightarrow> jsnum" where
  "progress_of idx n = js_div (of_nat idx) (of_nat n)"

definition revealed_of :: "nat \<Rightarrow> nat \<Rightarrow> int \<Rightarrow> jsnum" where
  "revealed_of idx n tc = js_floor (js_mul (js_div (of_nat idx) (of_nat n)) (of_int tc))"

text \<open>
  One run of the callback \<^verbatim>\<open>reveal\<close>. The context \<^verbatim>\<open>ctx\<close> it draws on is the one
  of the canvas that the ref holds; the canvas element is not replaced during a
  reveal.
\<close>

definition reveal :: "reveal_closure \<Rightarrow> page \<Rightarrow> page" where
  "reveal cl s =
     (let endIndex = min (currentIndex cl + dotsPerFrame (dots cl)) (length (dots cl));
          s1 = s\<lparr>canvasRef :=
                   map_option (clear_dots (dots cl) (currentIndex cl) endIndex) (canvasRef s)\<rparr>;
          s2 = s1\<lparr>paletteCount := revealed_of endIndex (length (dots cl)) (totalCount cl),
                  revealProgress := progress_of endIndex (length (dots cl))\<rparr>
      in if endIndex < length (dots cl)
         then (case requestAnimationFrame (cl\<lparr>currentIndex := endIndex\<rparr>) s2 of
                 (h, s3) \<Rightarrow> s3\<lparr>animationRef := Some h\<rparr>)
         else s2\<lparr>isPaletteRevealing := False,
                 paletteCount := Fin (of_int (totalCount cl))\<rparr>)"

definition startRevealAnimation :: "int \<Rightarrow> page \<Rightarrow> page" where
  "startRevealAnimation tc s =
     (case canvasRef s of
        None \<Rightarrow> s
      | Some cv \<Rightarrow>
          (case requestAnimationFrame
                  \<lparr>dots = dotsRef s, currentIndex = 0, totalCount = tc\<rparr>
                  (s\<lparr>isPaletteRevealing := True\<rparr>) of
             (h, s1) \<Rightarrow> s1\<lparr>animationRef := Some h\<rparr>))"

text \<open>The browser runs the callback registered under handle \<open>h\<close>, once.\<close>

definition animationFrame :: "nat \<Rightarrow> page \<Rightarrow> page" where
  "animationFrame h s =
     (case frames s h of
        None \<Rightarrow> s
      | Some cb \<Rightarrow> reveal cb (s\<lparr>frames := (frames s)(h := None)\<rparr>))"

text \<open>
  The browser keeps running the reveal loop that starts with handle \<open>h\<close>: the
  callback, and then the callback it has rescheduled (under the handle
  \<^verbatim>\<open>requestAnimationFrame\<close> returned), until \<^verbatim>\<open>reveal\<close> no longer reschedules.
  The result lists the page state after each frame.
\<close>

function run_reveal :: "nat \<Rightarrow> page \<Rightarrow> page list" where
  "run_reveal h s =
     (case frames s h of
        None \<Rightarrow> []
      | Some cb \<Rightarrow>
          if currentIndex cb + dotsPerFrame (dots cb) < length (dots cb)
          then animationFrame h s # run_reveal (nextHandle s) (animationFrame h s)
          else [animationFrame h s])"
  by pat_completeness auto
termination
proof (relation "measure (\<lambda>(h, s). case frames s h of None \<Rightarrow> 0
                    | Some cb \<Rightarrow> length (dots cb) - currentIndex cb)")
  show "wf (measure (\<lambda>(h, s). case frames s h of None \<Rightarrow> 0
                    | Some cb \<Rightarrow> length (dots cb) - currentIndex cb))"
    by simp
next
  fix h :: nat and s :: page and cb :: reveal_closure
  assume a: "frames s h = Some cb"
    and b: "currentIndex cb + dotsPerFrame (dots cb) < length (dots cb)"
  have pos: "0 < dotsPerFrame (dots cb)"
    by (simp add: dotsPerFrame_def)
  have "frames (animationFrame h s) (nextHandle s)
          = Some (cb\<lparr>currentIndex := currentIndex cb + dotsPerFrame (dots cb)\<rparr>)"
    using a b
    by (simp add: animationFrame_def reveal_def requestAnimationFrame_def Let_def min_def)
  then show "((nextHandle s, animationFrame h s), (h, s))
      \<in> measure (\<lambda>(h, s). case frames s h of None \<Rightarrow> 0
                    | Some cb \<Rightarrow> length (dots cb) - currentIndex cb)"
    using a b pos by simp
qed

declare run_reveal.simps [simp del]

subsection \<open>The handlers\<close>

text \<open>\<^verbatim>\<open>togglePaletteColor\<close>.\<close>

definition togglePaletteColor :: "ColorKey \<Rightarrow> page \<Rightarrow> page" where
  "togglePaletteColor color s =
     (let s1 = (if palettePreview s \<noteq> None
                then s\<lparr>palettePreview := None, paletteResult := None,
                       paletteCount := Fin 0, revealProgress := Fin 0,
                       canvasRef := map_option fillRect (canvasRef s)\<rparr>
                else s)
      in s1\<lparr>selectedPaletteColors :=
               (if color \<in> selectedPaletteColors s1
                then selectedPaletteColors s1 - {color}
                else insert color (selectedPaletteColors s1))\<rparr>)"

text \<open>
  The \<^verbatim>\<open>onClick\<close> handlers of the two mode buttons; \<open>setMode m\<close> is the handler of
  the button for mode \<open>m\<close>.
\<close>

definition setMode :: "mode \<Rightarrow> page \<Rightarrow> page" where
  "setMode m s =
     (if rencontresMode s \<noteq> m
      then s\<lparr>rencontresMode := m, palettePreview := None, paletteResult := None,
             paletteCount := Fin 0, revealProgress := Fin 0\<rparr>
      else s)"

text \<open>
  The \<^verbatim>\<open>disabled\<close> attributes of the colour buttons and of the button
  \<^verbatim>\<open>Generer\<close>. The two mode buttons have none.
\<close>

definition colorButtonsDisabled :: "page \<Rightarrow> bool" where
  "colorButtonsDisabled s \<longleftrightarrow> isPaletteGenerating s \<or> isPaletteRevealing s"

definition generateButtonDisabled :: "page \<Rightarrow> bool" where
  "generateButtonDisabled s \<longleftrightarrow>
     card (selectedPaletteColors s) < 2 \<or> isPaletteGenerating s \<or> isPaletteRevealing s"

text \<open>
  \<^verbatim>\<open>handleGeneratePalette\<close> up to the \<^verbatim>\<open>await fetch(...)\<close>. The result tells
  whether a request was sent. The test \<^verbatim>\<open>if (animationRef.current)\<close> is a
  truthiness test: \<^verbatim>\<open>null\<close> and the number 0 both fail it.
\<close>

definition handleGeneratePalette_begin :: "(nat \<Rightarrow> rat) \<Rightarrow> page \<Rightarrow> page \<times> bool" where
  "handleGeneratePalette_begin rnd s =
     (if card (selectedPaletteColors s) < 2 then (s, False)
      else
        (let s1 = (case animationRef s of
                     None \<Rightarrow> s
                   | Some h \<Rightarrow> if h = 0 then s else cancelAnimationFrame h s);
             s2 = s1\<lparr>isPaletteGenerating := True, paletteError := None,
                     paletteResult := None, palettePreview := None,
                     paletteCount := Fin 0, revealProgress := Fin 0\<rparr>
         in (fst (initRevealDots rnd s2), True)))"

text \<open>
  \<^verbatim>\<open>a || b\<close> for an optional number \<open>a\<close>: the left operand when it is truthy
  (\<^verbatim>\<open>undefined\<close>, \<^verbatim>\<open>null\<close> and 0 are falsy), the right operand otherwise.
\<close>

definition truthy :: "int option \<Rightarrow> bool" where
  "truthy a = (case a of None \<Rightarrow> False | Some t \<Rightarrow> t \<noteq> 0)"

definition js_or :: "int option \<Rightarrow> int \<Rightarrow> int" where
  "js_or a b = (case a of None \<Rightarrow> b | Some t \<Rightarrow> if truthy a then t else b)"

text \<open>\<^verbatim>\<open>const displayCount = data.total_available || data.count\<close>.\<close>

definition displayCount :: "response \<Rightarrow> int" where
  "displayCount data = js_or (data_total_available data) (data_count data)"

text \<open>
  \<^verbatim>\<open>handleGeneratePalette\<close> after the response has been parsed. \<open>now\<close> is the text
  of \<^verbatim>\<open>Date.now()\<close>. The second component is the argument with which the
  \<^verbatim>\<open>onload\<close> handler of the preview image will call \<^verbatim>\<open>startRevealAnimation\<close>, or
  \<open>None\<close> when no image is created.
\<close>

definition handleGeneratePalette_response ::
    "string \<Rightarrow> response \<Rightarrow> page \<Rightarrow> page \<times> int option" where
  "handleGeneratePalette_response now data s =
     (case data_error data of
        Some e \<Rightarrow> (s\<lparr>paletteError := Some e, isPaletteGenerating := False\<rparr>, None)
      | None \<Rightarrow>
          (s\<lparr>palettePreview := Some (data_preview data @ ''?t='' @ now),
             paletteCount := Fin (of_int (displayCount data)),
             paletteResult := Some data,
             isPaletteGenerating := False\<rparr>,
           Some (displayCount data)))"

text \<open>
  The \<^verbatim>\<open>catch\<close> branch: \<open>err\<close> is the message of the thrown \<^verbatim>\<open>Error\<close>, or
  \<open>None\<close> when the thrown value is not an \<^verbatim>\<open>Error\<close>.
\<close>

definition handleGeneratePalette_catch :: "string option \<Rightarrow> page \<Rightarrow> page" where
  "handleGeneratePalette_catch err s =
     s\<lparr>paletteError := Some (case err of Some m \<Rightarrow> m | None \<Rightarrow> ''Erreur de connexion''),
       isPaletteGenerating := False\<rparr>"

subsection \<open>Scenarios\<close>

text \<open>
  The state of the component once it has mounted with a \<open>w\<close> by \<open>h\<close> canvas (the
  JSX gives the canvas 800 by 800): the initial values of the \<^verbatim>\<open>useState\<close> and
  \<^verbatim>\<open>useRef\<close> calls, an untouched canvas, and no animation frame requested. The
  browser hands out handles from 1.
\<close>

definition initial_page :: "nat \<Rightarrow> nat \<Rightarrow> page" where
  "initial_page w h =
     \<lparr>canvasRef = Some \<lparr>width = w, height = h, filled = False, cleared = []\<rparr>,
      animationRef = None, dotsRef = [], palettePreview = None, paletteResult = None,
      paletteCount = Fin 0, revealProgress = Fin 0, paletteError = None,
      isPaletteGenerating = False, isPaletteRevealing = False, rencontresMode = Nuages,
      selectedPaletteColors = {}, frames = Map.empty, nextHandle = 1\<rparr>"

text \<open>The visitor has selected two colours.\<close>

definition two_colours :: "nat \<Rightarrow> nat \<Rightarrow> page" where
  "two_colours w h = togglePaletteColor Rouge (togglePaletteColor Bleu (initial_page w h))"

text \<open>A random source that returns one half at every call.\<close>

definition rnd_half :: "nat \<Rightarrow> rat" where
  "rnd_half i = 1 / 2"


text \<open>
  A generation round with that selection and random source: the request is sent
  (\<open>generating\<close>), a response arrives (\<open>answered\<close>), the preview image loads and
  its \<^verbatim>\<open>onload\<close> handler starts the reveal (\<open>revealing\<close>). \<open>response_ok c t\<close> is a
  response without \<^verbatim>\<open>error\<close> field, with \<^verbatim>\<open>count\<close> \<open>c\<close> and
  \<^verbatim>\<open>total_available\<close> \<open>t\<close>.
\<close>

definition generating :: "nat \<Rightarrow> nat \<Rightarrow> page" where
  "generating w h = fst (handleGeneratePalette_begin rnd_half (two_colours w h))"

definition answered :: "nat \<Rightarrow> nat \<Rightarrow> response \<Rightarrow> page" where
  "answered w h data = fst (handleGeneratePalette_response ''0'' data (generating w h))"

definition revealing :: "nat \<Rightarrow> nat \<Rightarrow> response \<Rightarrow> page" where
  "revealing w h data = startRevealAnimation (displayCount data) (answered w h data)"

definition response_ok :: "int \<Rightarrow> int option \<Rightarrow> response" where
  "response_ok c t =
     \<lparr>data_error = None, data_count = c, data_total_available = t,
      data_preview = ''/generated/preview.png'', data_full = None\<rparr>"

text \<open>A response that carries only an \<^verbatim>\<open>error\<close> field with the text \<open>e\<close>.\<close>

definition response_error :: "string \<Rightarrow> response" where
  "response_error e =
     \<lparr>data_error = Some e, data_count = 0, data_total_available = None,
      data_preview = [], data_full = None\<rparr>"

text \<open>
  The reveal on the 800 by 800 canvas, for a response with \<^verbatim>\<open>count\<close> 640000 and
  \<^verbatim>\<open>total_available\<close> 1185512, after its first frame.
\<close>

definition mid_reveal :: page where
  "mid_reveal = animationFrame 1 (revealing 800 800 (response_ok 640000 (Some 1185512)))"

subsection \<open>Notions used in the statements\<close>

text \<open>The pixel that \<^verbatim>\<open>clearRect(dots[i].x, dots[i].y, 1, 1)\<close> uncovers.\<close>

definition pixel :: "dot \<Rightarrow> nat \<times> nat" where
  "pixel d = (dot_x d, dot_y d)"

text \<open>
  The value of \<^verbatim>\<open>currentIndex\<close> after the frame number \<open>k\<close> (counted from 0) of the
  loop that the callback \<open>cb\<close> starts.
\<close>

definition cursor_at :: "reveal_closure \<Rightarrow> nat \<Rightarrow> nat" where
  "cursor_at cb k = min (currentIndex cb + Suc k * dotsPerFrame (dots cb)) (length (dots cb))"

text \<open>
  The Fisher-Yates shuffle in the words of the specification: the index \<open>i\<close> runs
  from the last position down to 1, and the element at \<open>i\<close> is swapped with the one at
  the chosen index \<open>js i\<close>. \<open>fisher_yates_upto js k\<close> runs the positions \<open>k\<close> down to 1.
\<close>

definition fisher_yates_upto :: "(nat \<Rightarrow> nat) \<Rightarrow> nat \<Rightarrow> 'a list \<Rightarrow> 'a list" where
  "fisher_yates_upto js k ds = fold (\<lambda>i xs. swap i (js i) xs) (rev [1..<Suc k]) ds"





section \<open>Auxiliary lemmas\<close>

subsection \<open>Rounding to a double\<close>

lemma round_half_even_cases:
  "round_half_even z = \<lfloor>z\<rfloor> \<or> round_half_even z = \<lfloor>z\<rfloor> + 1"
  by (simp add: round_half_even_def Let_def)

lemma round_half_even_upper: "of_int (round_half_even z) \<le> z + 1 / 2"
proof -
  have f: "of_int \<lfloor>z\<rfloor> \<le> z" by simp
  from round_half_even_cases[of z] show ?thesis
  proof
    assume e: "round_half_even z = \<lfloor>z\<rfloor>"
    have "of_int \<lfloor>z\<rfloor> \<le> z + 1 / 2" using f by linarith
    then show ?thesis by (simp only: e)
  next
    assume e: "round_half_even z = \<lfloor>z\<rfloor> + 1"
    then have "1 / 2 \<le> z - of_int \<lfloor>z\<rfloor>"
      by (simp add: round_half_even_def Let_def split: if_splits)
    then have "of_int (\<lfloor>z\<rfloor> + 1) \<le> z + 1 / 2" by simp
    then show ?thesis by (simp only: e)
  qed
qed

lemma round_half_even_lower: "z - 1 / 2 \<le> of_int (round_half_even z)"
proof -
  have f: "z < of_int \<lfloor>z\<rfloor> + 1" by linarith
  from round_half_even_cases[of z] show ?thesis
  proof
    assume e: "round_half_even z = \<lfloor>z\<rfloor>"
    then have "z - of_int \<lfloor>z\<rfloor> \<le> 1 / 2"
      by (simp add: round_half_even_def Let_def split: if_splits)
    then have "z - 1 / 2 \<le> of_int \<lfloor>z\<rfloor>" by simp
    then show ?thesis by (simp only: e)
  next
    assume e: "round_half_even z = \<lfloor>z\<rfloor> + 1"
    have "z - 1 / 2 \<le> of_int (\<lfloor>z\<rfloor> + 1)" using f by (simp only: of_int_add of_int_1)
    then show ?thesis by (simp only: e)
  qed
qed

lemma round_half_even_of_int [simp]: "round_half_even (of_int m) = m"
  by (simp add: round_half_even_def)


lemma ilog2_bounds:
  assumes "0 < x"
  shows "2 powi (ilog2 x) \<le> x" and "x < 2 powi (ilog2 x + 1)"
proof -
  have "2 powi (ilog2 x) \<le> x \<and> x < 2 powi (ilog2 x + 1)"
  proof (cases "1 \<le> x")
    case True
    let ?m = "nat \<lfloor>x\<rfloor>"
    let ?L = "floorlog 2 ?m"
    have m: "0 < ?m" using True by simp
    have b: "2 ^ (?L - 1) \<le> ?m" "?m < 2 ^ ?L"
      using floorlog_bounds[OF m, of 2] by simp_all
    have L: "1 \<le> ?L"
      using b(2) m by (cases ?L) simp_all
    have mx: "(of_nat ?m :: rat) \<le> x"
      using True by (simp add: of_nat_nat le_floor_iff)
    have xm: "x < of_nat ?m + 1"
      using True by (simp add: of_nat_nat) linarith
    have "(2 :: rat) ^ (?L - 1) \<le> of_nat ?m"
      using b(1) by (metis of_nat_le_iff of_nat_numeral of_nat_power)
    then have lo: "(2 :: rat) ^ (?L - 1) \<le> x"
      using mx by (rule order_trans)
    have "?m + 1 \<le> 2 ^ ?L"
      using b(2) by linarith
    then have "(of_nat ?m :: rat) + 1 \<le> 2 ^ ?L"
      by (metis of_nat_le_iff of_nat_numeral of_nat_power of_nat_add of_nat_1)
    with xm have hi: "x < 2 ^ ?L"
      by (rule less_le_trans)
    have e: "ilog2 x = int (?L - 1)"
      using True L by (simp add: ilog2_def)
    have e1: "ilog2 x + 1 = int ?L"
      using e L by simp
    have "(2 :: rat) powi (ilog2 x) = 2 ^ (?L - 1)"
      by (simp only: e power_int_of_nat)
    moreover have "(2 :: rat) powi (ilog2 x + 1) = 2 ^ ?L"
      by (simp only: e1 power_int_of_nat)
    ultimately show ?thesis
      using lo hi by simp
  next
    case False
    then have x1: "x < 1" by simp
    let ?y = "1 / x"
    let ?c = "nat \<lceil>?y\<rceil>"
    let ?L = "floorlog 2 (?c - 1)"
    have y1: "1 < ?y" using assms x1 by simp
    have c2: "2 \<le> ?c"
    proof -
      have "1 < \<lceil>?y\<rceil>" using y1 by (simp add: less_ceiling_iff)
      then show ?thesis by linarith
    qed
    have m: "0 < ?c - 1" using c2 by linarith
    have b: "2 ^ (?L - 1) \<le> ?c - 1" "?c - 1 < 2 ^ ?L"
      using floorlog_bounds[OF m, of 2] by simp_all
    have L: "1 \<le> ?L"
    proof (rule ccontr)
      assume "\<not> 1 \<le> ?L"
      then have "?L = 0" by linarith
      then have "(2 :: nat) ^ ?L = 1" by (simp only: power_0)
      with b(2) m show False by linarith
    qed
    have yc: "?y \<le> of_nat ?c"
      using y1 by (simp add: of_nat_nat) 
    have cy: "(of_nat ?c :: rat) - 1 < ?y"
    proof -
      have "of_int \<lceil>?y\<rceil> - 1 < ?y" by linarith
      moreover have "(of_nat ?c :: rat) = of_int \<lceil>?y\<rceil>"
        using c2 by (simp add: of_nat_nat)
      ultimately show ?thesis by simp
    qed
    have "?c \<le> 2 ^ ?L" using b(2) by linarith
    then have "(of_nat ?c :: rat) \<le> 2 ^ ?L"
      by (metis of_nat_le_iff of_nat_numeral of_nat_power)
    with yc have yhi: "?y \<le> 2 ^ ?L" by (rule order_trans)
    have "(2 :: rat) ^ (?L - 1) \<le> of_nat (?c - 1)"
      using b(1) by (metis of_nat_le_iff of_nat_numeral of_nat_power)
    also have "(of_nat (?c - 1) :: rat) = of_nat ?c - 1"
      using c2 by (simp add: of_nat_diff)
    finally have ylo: "(2 :: rat) ^ (?L - 1) < ?y"
      using cy by simp
    have lo: "1 / 2 ^ ?L \<le> x"
    proof -
      have "1 \<le> x * 2 ^ ?L"
        using yhi assms by (simp add: field_simps)
      then show ?thesis by (simp add: field_simps)
    qed
    have hi: "x < 1 / 2 ^ (?L - 1)"
    proof -
      have "x * 2 ^ (?L - 1) < 1"
        using ylo assms by (simp add: field_simps)
      then show ?thesis by (simp add: field_simps)
    qed
    have e: "ilog2 x = - int ?L"
      using False by (simp add: ilog2_def)
    have e1: "ilog2 x + 1 = - int (?L - 1)"
      using e L by simp
    have p: "(2 :: rat) powi (- int ?L) = 1 / 2 ^ ?L"
      "(2 :: rat) powi (- int (?L - 1)) = 1 / 2 ^ (?L - 1)"
      by (simp_all add: power_int_minus field_simps)
    have "(2 :: rat) powi (ilog2 x) = 1 / 2 ^ ?L"
      by (simp only: e p)
    moreover have "(2 :: rat) powi (ilog2 x + 1) = 1 / 2 ^ (?L - 1)"
      by (simp only: e1 p)
    ultimately show ?thesis
      using lo hi by simp
  qed
  then show "2 powi (ilog2 x) \<le> x" and "x < 2 powi (ilog2 x + 1)"
    by simp_all
qed



lemma powi_split52: "(2 :: rat) powi e = 2 ^ 52 * 2 powi (e - 52)"
proof -
  have "(2 :: rat) powi (52 + (e - 52)) = 2 powi 52 * 2 powi (e - 52)"
    by (rule power_int_add) simp
  moreover have "52 + (e - 52) = e" by simp
  moreover have "(2 :: rat) powi 52 = 2 ^ 52"
    by (simp add: power_int_def)
  ultimately show ?thesis by simp
qed



lemma round_double_pos:
  assumes "0 < x"
  shows "round_double x = of_int (round_half_even (x / 2 powi (ilog2 x - 52))) * 2 powi (ilog2 x - 52)"
  using assms by (simp add: round_double_def Let_def)

lemma round_double_0 [simp]: "round_double 0 = 0"
  by (simp add: round_double_def)



lemma powi_less_imp_less:
  assumes "(2 :: rat) powi m < 2 powi n"
  shows "m < n"
proof (rule ccontr)
  assume "\<not> m < n"
  then have "n \<le> m" by simp
  then have "(2 :: rat) powi n \<le> 2 powi m"
    by (intro power_int_increasing) simp_all
  then show False using assms by simp
qed

lemma powi_neg52: "(2 :: rat) powi (- 52) = 1 / 2 ^ 52"
  by (simp add: power_int_minus_divide)

lemma powi_neg53: "(2 :: rat) powi (- 53) = 1 / 2 ^ 53"
  by (simp add: power_int_minus_divide)

lemma ilog2_unique:
  assumes "2 powi e \<le> x" and "x < 2 powi (e + 1)"
  shows "ilog2 x = e"
proof -
  have x: "0 < x"
  proof -
    have "(0 :: rat) < 2 powi e" by simp
    then show ?thesis using assms(1) by (rule less_le_trans)
  qed
  note b = ilog2_bounds[OF x]
  have "(2 :: rat) powi e < 2 powi (ilog2 x + 1)"
    using assms(1) b(2) by (rule le_less_trans)
  then have 1: "e < ilog2 x + 1"
    by (rule powi_less_imp_less)
  have "(2 :: rat) powi (ilog2 x) < 2 powi (e + 1)"
    using b(1) assms(2) by (rule le_less_trans)
  then have 2: "ilog2 x < e + 1"
    by (rule powi_less_imp_less)
  show ?thesis using 1 2 by simp
qed



lemma round_double_error:
  assumes "0 \<le> x"
  shows "\<bar>round_double x - x\<bar> \<le> x / 2 ^ 53"
proof (cases "x = 0")
  case True
  then show ?thesis by simp
next
  case False
  then have x: "0 < x" using assms by simp
  let ?u = "(2 :: rat) powi (ilog2 x - 52)"
  let ?z = "x / ?u"
  have u: "0 < ?u" by simp
  have xz: "x = ?z * ?u" by simp
  have "\<bar>of_int (round_half_even ?z) - ?z\<bar> \<le> 1 / 2"
    using round_half_even_upper[of ?z] round_half_even_lower[of ?z] by linarith
  then have "\<bar>of_int (round_half_even ?z) - ?z\<bar> * ?u \<le> 1 / 2 * ?u"
    using u by (intro mult_right_mono) simp_all
  moreover have "\<bar>of_int (round_half_even ?z) - ?z\<bar> * ?u
                   = \<bar>(of_int (round_half_even ?z) - ?z) * ?u\<bar>"
    by (simp add: abs_mult)
  moreover have "(of_int (round_half_even ?z) - ?z) * ?u = of_int (round_half_even ?z) * ?u - x"
    by (simp add: left_diff_distrib)
  ultimately have "\<bar>of_int (round_half_even ?z) * ?u - x\<bar> \<le> 1 / 2 * ?u"
    by simp
  then have e: "\<bar>round_double x - x\<bar> \<le> 1 / 2 * ?u"
    by (simp only: round_double_pos[OF x])
  have "2 ^ 52 * ?u \<le> x"
    using ilog2_bounds(1)[OF x] powi_split52[of "ilog2 x"] by simp
  then have "1 / 2 * ?u \<le> x / 2 ^ 53"
    by simp
  then show ?thesis
    using e by linarith
qed

lemma round_double_1: "round_double 1 = 1"
proof -
  have e: "ilog2 1 = 0"
    by (rule ilog2_unique) simp_all
  have "(1 :: rat) / 2 powi (0 - 52) = of_int (2 ^ 52)"
    by (simp add: powi_neg52)
  then have "round_half_even ((1 :: rat) / 2 powi (0 - 52)) = 2 ^ 52"
    by (simp only: round_half_even_of_int)
  then have "round_double 1 = of_int (2 ^ 52) * 2 powi (0 - 52)"
    using round_double_pos[of 1] e by simp
  also have "\<dots> = 1"
    by (simp add: powi_neg52)
  finally show ?thesis .
qed

lemma is_double_below_1:
  assumes "is_double r" and "0 \<le> r" and "r < 1"
  shows "r \<le> 1 - 1 / 2 ^ 53"
proof (cases "r = 0")
  case True
  then show ?thesis by simp
next
  case False
  then have r: "0 < r" using assms(2) by simp
  have "(2 :: rat) powi (ilog2 r) < 1"
    using ilog2_bounds(1)[OF r] assms(3) by simp
  then have "(2 :: rat) powi (ilog2 r) < 2 powi 0"
    by simp
  then have neg: "ilog2 r < 0"
    by (rule powi_less_imp_less)
  show ?thesis
  proof (cases "ilog2 r = - 1")
    case True
    let ?m = "round_half_even (r / 2 powi (- 1 - 52))"
    have u: "(2 :: rat) powi (- 1 - 52) = 1 / 2 ^ 53"
      by (simp add: powi_neg53)
    have eq: "r = of_int ?m / 2 ^ 53"
      using assms(1) round_double_pos[OF r] True u by (simp add: is_double_def)
    have "of_int ?m < (2 :: rat) ^ 53"
      using eq assms(3) by simp
    then have "(of_int ?m :: rat) < of_int (2 ^ 53)" by simp
    then have "?m < 2 ^ 53" by (simp only: of_int_less_iff)
    then have "?m \<le> 2 ^ 53 - 1" by simp
    then have "(of_int ?m :: rat) \<le> of_int (2 ^ 53 - 1)" by (simp only: of_int_le_iff)
    then have "(of_int ?m :: rat) / 2 ^ 53 \<le> of_int (2 ^ 53 - 1) / 2 ^ 53"
      by (intro divide_right_mono) simp_all
    then show ?thesis
      using eq by simp
  next
    case False
    then have "ilog2 r + 1 \<le> - 1" using neg by simp
    then have "(2 :: rat) powi (ilog2 r + 1) \<le> 2 powi (- 1)"
      by (intro power_int_increasing) simp_all
    then have "r < 2 powi (- 1)"
      using ilog2_bounds(2)[OF r] by linarith
    then have "r < 1 / 2"
      by (simp add: power_int_minus_divide)
    then show ?thesis by simp
  qed
qed

lemma round_half_even_eqI:
  assumes "of_int m - 1 / 2 < z" and "z < of_int m + 1 / 2"
  shows "round_half_even z = m"
proof -
  have "(of_int (round_half_even z) :: rat) < of_int m + 1"
    using round_half_even_upper[of z] assms(2) by linarith
  then have "(of_int (round_half_even z) :: rat) < of_int (m + 1)"
    by simp
  then have 1: "round_half_even z < m + 1"
    by (simp only: of_int_less_iff)
  have "(of_int m :: rat) - 1 < of_int (round_half_even z)"
    using round_half_even_lower[of z] assms(1) by linarith
  then have "(of_int (m - 1) :: rat) < of_int (round_half_even z)"
    by simp
  then have 2: "m - 1 < round_half_even z"
    by (simp only: of_int_less_iff)
  show ?thesis using 1 2 by simp
qed

lemma round_double_eqI:
  assumes "2 powi e \<le> x" and "x < 2 powi (e + 1)"
    and "(of_int m - 1 / 2) * 2 powi (e - 52) < x" and "x < (of_int m + 1 / 2) * 2 powi (e - 52)"
  shows "round_double x = of_int m * 2 powi (e - 52)"
proof -
  have x: "0 < x"
  proof -
    have "(0 :: rat) < 2 powi e" by simp
    then show ?thesis using assms(1) by (rule less_le_trans)
  qed
  have e: "ilog2 x = e"
    using assms(1,2) by (rule ilog2_unique)
  have u: "(0 :: rat) < 2 powi (e - 52)" by simp
  have "round_half_even (x / 2 powi (e - 52)) = m"
  proof (rule round_half_even_eqI)
    show "of_int m - 1 / 2 < x / 2 powi (e - 52)"
      using assms(3) u by (simp only: pos_less_divide_eq)
    show "x / 2 powi (e - 52) < of_int m + 1 / 2"
      using assms(4) u by (simp only: pos_divide_less_eq)
  qed
  then show ?thesis
    by (simp only: round_double_pos[OF x] e)
qed

lemma round_double_exactI:
  assumes "2 powi e \<le> x" and "x < 2 powi (e + 1)" and "x = of_int m * 2 powi (e - 52)"
  shows "round_double x = x"
proof -
  have x: "0 < x"
  proof -
    have "(0 :: rat) < 2 powi e" by simp
    then show ?thesis using assms(1) by (rule less_le_trans)
  qed
  have e: "ilog2 x = e"
    using assms(1,2) by (rule ilog2_unique)
  have "x / 2 powi (e - 52) = of_int m"
    by (subst assms(3)) simp
  then have "round_half_even (x / 2 powi (ilog2 x - 52)) = m"
    by (simp only: e round_half_even_of_int)
  then have "round_double x = of_int m * 2 powi (e - 52)"
    by (simp only: round_double_pos[OF x] e)
  then show ?thesis
    by (simp only: assms(3)[symmetric])
qed


lemma round_double_scaled_int:
  assumes "0 < x" and "x / 2 powi (ilog2 x - 52) = of_int m"
  shows "round_double x = x"
proof -
  have "round_half_even (x / 2 powi (ilog2 x - 52)) = m"
    by (simp only: assms(2) round_half_even_of_int)
  then have "round_double x = of_int m * 2 powi (ilog2 x - 52)"
    by (simp only: round_double_pos[OF assms(1)])
  also have "\<dots> = x / 2 powi (ilog2 x - 52) * 2 powi (ilog2 x - 52)"
    by (simp only: assms(2))
  also have "\<dots> = x"
    by simp
  finally show ?thesis .
qed

lemma powi_nonneg_of_int: "0 \<le> k \<Longrightarrow> (2 :: rat) powi k = of_int (2 ^ nat k)"
  by (simp add: power_int_def)

lemma divide_powi: "(x :: rat) / 2 powi a = x * 2 powi (- a)"
  by (simp add: power_int_minus field_simps)

lemma is_double_of_int:
  assumes "0 \<le> n" and "n < 2 ^ 53"
  shows "is_double (of_int n)"
proof (cases "n = 0")
  case True
  then show ?thesis by (simp add: is_double_def)
next
  case False
  let ?x = "of_int n :: rat"
  have x: "0 < ?x" using assms(1) False by simp
  have "?x < of_int (2 ^ 53)"
    using assms(2) by (simp only: of_int_less_iff)
  then have "?x < 2 powi 53"
    by simp
  then have "(2 :: rat) powi (ilog2 ?x) < 2 powi 53"
    using ilog2_bounds(1)[OF x] by linarith
  then have "ilog2 ?x < 53"
    by (rule powi_less_imp_less)
  then have k: "0 \<le> 52 - ilog2 ?x" by simp
  have "?x / 2 powi (ilog2 ?x - 52) = ?x * 2 powi (52 - ilog2 ?x)"
    by (simp add: divide_powi)
  also have "\<dots> = of_int (n * 2 ^ nat (52 - ilog2 ?x))"
    by (simp add: powi_nonneg_of_int[OF k])
  finally show ?thesis
    unfolding is_double_def using x by (intro round_double_scaled_int)
qed


lemma round_double_half: "round_double (1 / 2) = 1 / 2"
  by (rule round_double_exactI[where e = "- 1" and m = "2 ^ 52"])
    (simp_all add: power_int_minus_divide)

lemma round_double_three_halves: "round_double (3 / 2) = 3 / 2"
  by (rule round_double_exactI[where e = 0 and m = "3 * 2 ^ 51"])
    (simp_all add: power_int_minus_divide)

lemma round_double_2: "round_double 2 = 2"
  using is_double_of_int[of 2] by (simp add: is_double_def)

lemma round_double_592756: "round_double 592756 = 592756"
  using is_double_of_int[of 592756] by (simp add: is_double_def)

lemma round_double_29_200: "round_double (29 / 200) = 5224175567749775 / 2 ^ 55"
proof -
  have "round_double (29 / 200) = of_int 5224175567749775 * 2 powi (- 3 - 52)"
    by (rule round_double_eqI) (simp_all add: power_int_minus_divide)
  then show ?thesis
    by (simp add: power_int_minus_divide)
qed

lemma round_double_29_200_times: "round_double (5224175567749775 / 2 ^ 55 * 200) = 8162774324609023 / 2 ^ 48"
proof -
  have "round_double (5224175567749775 / 2 ^ 55 * 200) = of_int 8162774324609023 * 2 powi (4 - 52)"
    by (rule round_double_eqI) (simp_all add: power_int_minus_divide)
  then show ?thesis
    by (simp add: power_int_minus_divide)
qed

lemma round_double_1_200: "round_double (1 / 200) = 5764607523034235 / 2 ^ 60"
proof -
  have "round_double (1 / 200) = of_int 5764607523034235 * 2 powi (- 8 - 52)"
    by (rule round_double_eqI) (simp_all add: power_int_minus_divide)
  then show ?thesis
    by (simp add: power_int_minus_divide)
qed

lemma round_double_1_200_times:
  "round_double (5764607523034235 / 2 ^ 60 * 1185512) = 6517421144339907 / 2 ^ 40"
proof -
  have "round_double (5764607523034235 / 2 ^ 60 * 1185512)
          = of_int 6517421144339907 * 2 powi (12 - 52)"
    by (rule round_double_eqI) (simp_all add: power_int_minus_divide)
  then show ?thesis
    by (simp add: power_int_minus_divide)
qed

lemma round_double_1_100: "round_double (1 / 100) = 5764607523034235 / 2 ^ 59"
proof -
  have "round_double (1 / 100) = of_int 5764607523034235 * 2 powi (- 7 - 52)"
    by (rule round_double_eqI) (simp_all add: power_int_minus_divide)
  then show ?thesis
    by (simp add: power_int_minus_divide)
qed

lemma round_double_1_100_times:
  "round_double (5764607523034235 / 2 ^ 59 * 1185512) = 6517421144339907 / 2 ^ 39"
proof -
  have "round_double (5764607523034235 / 2 ^ 59 * 1185512)
          = of_int 6517421144339907 * 2 powi (13 - 52)"
    by (rule round_double_eqI) (simp_all add: power_int_minus_divide)
  then show ?thesis
    by (simp add: power_int_minus_divide)
qed


subsection \<open>The reveal loop and the handlers\<close>

lemma dotsPerFrame_pos: "0 < dotsPerFrame ds"
  by (simp add: dotsPerFrame_def)

lemma cleared_clear_dots:
  "cleared (clear_dots ds a b cv) = cleared cv @ map (\<lambda>i. (dot_x (ds ! i), dot_y (ds ! i))) [a..<b]"
proof (induction b)
  case 0
  then show ?case by (simp add: clear_dots_def)
next
  case (Suc b)
  then show ?case
    by (cases "a \<le> b") (simp_all add: clear_dots_def clearRect_def)
qed

lemma clear_dots_clear_dots:
  assumes "a \<le> b" "b \<le> e"
  shows "clear_dots ds b e (clear_dots ds a b cv) = clear_dots ds a e cv"
proof -
  have "[a..<e] = [a..<b] @ [b..<e]"
    using assms by (metis le_Suc_ex upt_add_eq_append)
  then show ?thesis
    by (simp add: clear_dots_def)
qed

lemma animationFrame_resched:
  assumes "frames s h = Some cb"
    and "currentIndex cb + dotsPerFrame (dots cb) < length (dots cb)"
  shows "animationFrame h s =
     s\<lparr>canvasRef := map_option (clear_dots (dots cb) (currentIndex cb)
                         (currentIndex cb + dotsPerFrame (dots cb))) (canvasRef s),
       paletteCount := revealed_of (currentIndex cb + dotsPerFrame (dots cb)) (length (dots cb)) (totalCount cb),
       revealProgress := progress_of (currentIndex cb + dotsPerFrame (dots cb)) (length (dots cb)),
       frames := ((frames s)(h := None))(nextHandle s \<mapsto>
                    cb\<lparr>currentIndex := currentIndex cb + dotsPerFrame (dots cb)\<rparr>),
       nextHandle := Suc (nextHandle s),
       animationRef := Some (nextHandle s)\<rparr>"
  using assms
  by (simp add: animationFrame_def reveal_def requestAnimationFrame_def Let_def min_def)

lemma animationFrame_final:
  assumes "frames s h = Some cb"
    and "\<not> currentIndex cb + dotsPerFrame (dots cb) < length (dots cb)"
  shows "animationFrame h s =
     s\<lparr>canvasRef := map_option (clear_dots (dots cb) (currentIndex cb) (length (dots cb))) (canvasRef s),
       revealProgress := progress_of (length (dots cb)) (length (dots cb)),
       frames := (frames s)(h := None),
       isPaletteRevealing := False,
       paletteCount := Fin (of_int (totalCount cb))\<rparr>"
  using assms
  by (simp add: animationFrame_def reveal_def requestAnimationFrame_def Let_def min_def)



lemma run_reveal_resched:
  assumes "frames s h = Some cb"
    and "currentIndex cb + dotsPerFrame (dots cb) < length (dots cb)"
  shows "run_reveal h s = animationFrame h s # run_reveal (nextHandle s) (animationFrame h s)"
  using assms by (subst run_reveal.simps) simp

lemma run_reveal_final:
  assumes "frames s h = Some cb"
    and "\<not> currentIndex cb + dotsPerFrame (dots cb) < length (dots cb)"
  shows "run_reveal h s = [animationFrame h s]"
  using assms by (subst run_reveal.simps) simp

lemma frames_after_resched:
  assumes "frames s h = Some cb"
    and "currentIndex cb + dotsPerFrame (dots cb) < length (dots cb)"
  shows "frames (animationFrame h s) (nextHandle s)
          = Some (cb\<lparr>currentIndex := currentIndex cb + dotsPerFrame (dots cb)\<rparr>)"
  using assms by (simp add: animationFrame_resched)

lemma ceil_div_step:
  fixes B c N :: nat
  assumes "0 < B" "c + B < N"
  shows "(N - c + B - 1) div B = Suc ((N - (c + B) + B - 1) div B)"
proof -
  obtain m where m: "m = N - (c + B) + B - 1" by simp
  have eq: "N - c + B - 1 = m + B"
    using assms m by arith
  have "(N - c + B - 1) div B = (m + B) div B"
    by (simp only: eq)
  also have "\<dots> = Suc (m div B)"
    using assms(1) by simp
  finally show ?thesis
    by (simp only: m)
qed

lemma ceil_div_last:
  fixes B c N :: nat
  assumes "0 < B" "c < N" "\<not> c + B < N"
  shows "(N - c + B - 1) div B = 1"
proof -
  obtain m where m: "m = N - c - 1" by simp
  have eq: "N - c + B - 1 = m + B" and less: "m < B"
    using assms m by arith+
  have "(N - c + B - 1) div B = (m + B) div B"
    by (simp only: eq)
  also have "\<dots> = 1"
    using less by simp
  finally show ?thesis .
qed

lemma length_run_reveal:
  "frames s h = Some cb \<Longrightarrow>
   length (run_reveal h s) =
     (if currentIndex cb < length (dots cb)
      then (length (dots cb) - currentIndex cb + dotsPerFrame (dots cb) - 1) div dotsPerFrame (dots cb)
      else 1)"
proof (induction h s arbitrary: cb rule: run_reveal.induct)
  case (1 h s)
  let ?B = "dotsPerFrame (dots cb)"
  let ?N = "length (dots cb)"
  let ?c = "currentIndex cb"
  have Bpos: "0 < ?B" by (rule dotsPerFrame_pos)
  show ?case
  proof (cases "?c + ?B < ?N")
    case True
    let ?cb' = "cb\<lparr>currentIndex := ?c + ?B\<rparr>"
    have fr: "frames (animationFrame h s) (nextHandle s) = Some ?cb'"
      using "1.prems" True by (rule frames_after_resched)
    have "length (run_reveal (nextHandle s) (animationFrame h s))
            = (?N - (?c + ?B) + ?B - 1) div ?B"
      using "1.IH"[OF "1.prems" True fr] True by simp
    moreover have "(?N - ?c + ?B - 1) div ?B = Suc ((?N - (?c + ?B) + ?B - 1) div ?B)"
      using Bpos True by (rule ceil_div_step)
    ultimately show ?thesis
      using True "1.prems" by (simp add: run_reveal_resched)
  next
    case False
    have "(?N - ?c + ?B - 1) div ?B = 1" if "?c < ?N"
      using Bpos that False by (rule ceil_div_last)
    then show ?thesis
      using False "1.prems" by (simp add: run_reveal_final)
  qed
qed



lemma run_reveal_nonempty:
  "frames s h = Some cb \<Longrightarrow> run_reveal h s \<noteq> []"
  by (subst run_reveal.simps) simp

lemma cursor_at_0_resched:
  "currentIndex cb + dotsPerFrame (dots cb) < length (dots cb) \<Longrightarrow>
   cursor_at cb 0 = currentIndex cb + dotsPerFrame (dots cb)"
  by (simp add: cursor_at_def)

lemma cursor_at_0_final:
  "\<not> currentIndex cb + dotsPerFrame (dots cb) < length (dots cb) \<Longrightarrow>
   cursor_at cb 0 = length (dots cb)"
  by (simp add: cursor_at_def)

lemma cursor_at_Suc:
  "cursor_at (cb\<lparr>currentIndex := currentIndex cb + dotsPerFrame (dots cb)\<rparr>) k
     = cursor_at cb (Suc k)"
  by (simp add: cursor_at_def add.assoc)

lemma cursor_at_ge:
  "currentIndex cb + dotsPerFrame (dots cb) < length (dots cb) \<Longrightarrow>
   currentIndex cb + dotsPerFrame (dots cb) \<le> cursor_at cb k"
  by (simp add: cursor_at_def)

lemma cursor_at_le: "cursor_at cb k \<le> length (dots cb)"
  by (simp add: cursor_at_def)

lemma nth_run_reveal:
  "frames s h = Some cb \<Longrightarrow> k < length (run_reveal h s) \<Longrightarrow>
   revealProgress (run_reveal h s ! k) = progress_of (cursor_at cb k) (length (dots cb))
   \<and> paletteCount (run_reveal h s ! k) =
       (if cursor_at cb k < length (dots cb)
        then revealed_of (cursor_at cb k) (length (dots cb)) (totalCount cb)
        else Fin (of_int (totalCount cb)))
   \<and> isPaletteRevealing (run_reveal h s ! k) =
       (cursor_at cb k < length (dots cb) \<and> isPaletteRevealing s)
   \<and> canvasRef (run_reveal h s ! k) =
       map_option (clear_dots (dots cb) (currentIndex cb) (cursor_at cb k)) (canvasRef s)
   \<and> (cursor_at cb k < length (dots cb) \<longleftrightarrow> Suc k < length (run_reveal h s))"
proof (induction h s arbitrary: cb k rule: run_reveal.induct)
  case (1 h s)
  let ?B = "dotsPerFrame (dots cb)"
  let ?N = "length (dots cb)"
  let ?c = "currentIndex cb"
  note fr = "1.prems"(1)
  show ?case
  proof (cases "?c + ?B < ?N")
    case True
    let ?cb' = "cb\<lparr>currentIndex := ?c + ?B\<rparr>"
    let ?s' = "animationFrame h s"
    have fr': "frames ?s' (nextHandle s) = Some ?cb'"
      using fr True by (rule frames_after_resched)
    have run: "run_reveal h s = ?s' # run_reveal (nextHandle s) ?s'"
      using fr True by (rule run_reveal_resched)
    have len': "0 < length (run_reveal (nextHandle s) ?s')"
      using run_reveal_nonempty[OF fr'] by simp
    show ?thesis
    proof (cases k)
      case 0
      then show ?thesis
        using True len'
        by (simp add: run animationFrame_resched[OF fr True] cursor_at_0_resched)
    next
      case (Suc k')
      have k': "k' < length (run_reveal (nextHandle s) ?s')"
        using "1.prems"(2) Suc run by simp
      have comp: "map_option (clear_dots (dots cb) (?c + ?B) (cursor_at cb (Suc k')))
                    (map_option (clear_dots (dots cb) ?c (?c + ?B)) (canvasRef s))
                  = map_option (clear_dots (dots cb) ?c (cursor_at cb (Suc k'))) (canvasRef s)"
        using cursor_at_ge[OF True, of "Suc k'"]
        by (cases "canvasRef s") (simp_all add: clear_dots_clear_dots)
      show ?thesis
        using "1.IH"[OF fr True fr' k'] comp
        by (simp add: run Suc cursor_at_Suc animationFrame_resched[OF fr True])
    qed
  next
    case False
    have run: "run_reveal h s = [animationFrame h s]"
      using fr False by (rule run_reveal_final)
    have k0: "k = 0"
      using "1.prems"(2) run by simp
    show ?thesis
      using False
      by (simp add: run k0 animationFrame_final[OF fr False] cursor_at_0_final)
  qed
qed

lemma frames_last_run_reveal:
  "frames s h = Some cb \<Longrightarrow>
   dom (frames (last (run_reveal h s))) \<subseteq> dom (frames s) - {h}"
proof (induction h s arbitrary: cb rule: run_reveal.induct)
  case (1 h s)
  note fr = "1.prems"(1)
  show ?case
  proof (cases "currentIndex cb + dotsPerFrame (dots cb) < length (dots cb)")
    case True
    let ?cb' = "cb\<lparr>currentIndex := currentIndex cb + dotsPerFrame (dots cb)\<rparr>"
    let ?s' = "animationFrame h s"
    have fr': "frames ?s' (nextHandle s) = Some ?cb'"
      using fr True by (rule frames_after_resched)
    have run: "run_reveal h s = ?s' # run_reveal (nextHandle s) ?s'"
      using fr True by (rule run_reveal_resched)
    have ne: "run_reveal (nextHandle s) ?s' \<noteq> []"
      using fr' by (rule run_reveal_nonempty)
    have "dom (frames ?s') - {nextHandle s} \<subseteq> dom (frames s) - {h}"
      by (auto simp add: animationFrame_resched[OF fr True] split: if_splits)
    then show ?thesis
      using "1.IH"[OF fr True fr'] ne by (auto simp add: run)
  next
    case False
    show ?thesis
      by (auto simp add: run_reveal_final[OF fr False] animationFrame_final[OF fr False] split: if_splits)
  qed
qed

lemma startRevealAnimation_Some:
  assumes "canvasRef s = Some cv"
  shows "startRevealAnimation tc s =
     s\<lparr>isPaletteRevealing := True,
       frames := (frames s)(nextHandle s \<mapsto> \<lparr>dots = dotsRef s, currentIndex = 0, totalCount = tc\<rparr>),
       nextHandle := Suc (nextHandle s),
       animationRef := Some (nextHandle s)\<rparr>"
  using assms by (simp add: startRevealAnimation_def requestAnimationFrame_def)

lemma startRevealAnimation_unchanged:
  "canvasRef (startRevealAnimation tc s) = canvasRef s"
  "dotsRef (startRevealAnimation tc s) = dotsRef s"
  "paletteCount (startRevealAnimation tc s) = paletteCount s"
  "revealProgress (startRevealAnimation tc s) = revealProgress s"
  "palettePreview (startRevealAnimation tc s) = palettePreview s"
  by (simp_all add: startRevealAnimation_def requestAnimationFrame_def split: option.splits)

lemma length_swap [simp]: "length (swap i j ds) = length ds"
  by (simp add: swap_def)

lemma length_shuffle_from [simp]: "length (shuffle_from rnd k ds) = length ds"
  by (induction k arbitrary: ds) simp_all

lemma length_shuffle [simp]: "length (shuffle rnd ds) = length ds"
  by (simp add: shuffle_def)

lemma grid_product:
  "grid w h = map (\<lambda>(py, px). \<lparr>dot_x = px, dot_y = py\<rparr>) (List.product [0..<h] [0..<w])"
  by (simp add: grid_def product_concat_map map_concat comp_def)

lemma length_grid [simp]: "length (grid w h) = w * h"
  by (simp add: grid_product)

lemma initRevealDots_Some:
  assumes "canvasRef s = Some cv"
  shows "initRevealDots rnd s =
    (s\<lparr>dotsRef := shuffle rnd (grid (width cv) (height cv)), canvasRef := Some (fillRect cv)\<rparr>,
     Some (width cv * height cv))"
  using assms by (simp add: initRevealDots_def Let_def mult.commute)

lemma last_run_reveal:
  assumes "frames s h = Some cb"
  shows "\<not> isPaletteRevealing (last (run_reveal h s))"
    and "paletteCount (last (run_reveal h s)) = Fin (of_int (totalCount cb))"
    and "revealProgress (last (run_reveal h s)) = progress_of (length (dots cb)) (length (dots cb))"
    and "canvasRef (last (run_reveal h s)) =
           map_option (clear_dots (dots cb) (currentIndex cb) (length (dots cb))) (canvasRef s)"
proof -
  let ?r = "run_reveal h s"
  have ne: "?r \<noteq> []"
    using assms by (rule run_reveal_nonempty)
  then have k: "length ?r - 1 < length ?r" by simp
  have l: "last ?r = ?r ! (length ?r - 1)"
    using ne by (rule last_conv_nth)
  note n = nth_run_reveal[OF assms k]
  have "\<not> cursor_at cb (length ?r - 1) < length (dots cb)"
    using n ne by simp
  then have c: "cursor_at cb (length ?r - 1) = length (dots cb)"
    using cursor_at_le[of cb "length ?r - 1"] by simp
  show "\<not> isPaletteRevealing (last ?r)"
    and "paletteCount (last ?r) = Fin (of_int (totalCount cb))"
    and "revealProgress (last ?r) = progress_of (length (dots cb)) (length (dots cb))"
    and "canvasRef (last ?r) =
           map_option (clear_dots (dots cb) (currentIndex cb) (length (dots cb))) (canvasRef s)"
    using n c by (simp_all add: l)
qed

lemma cleared_clear_dots_take:
  assumes "a \<le> b" "b \<le> length ds"
  shows "cleared (clear_dots ds a b cv) = cleared cv @ map pixel (take (b - a) (drop a ds))"
proof -
  have "map (\<lambda>i. (dot_x (ds ! i), dot_y (ds ! i))) [a..<b] = map pixel (take (b - a) (drop a ds))"
    using assms by (intro nth_equalityI) (simp_all add: pixel_def)
  then show ?thesis
    by (simp add: cleared_clear_dots)
qed

lemma progress_of_Fin:
  "0 < n \<Longrightarrow> progress_of i n = Fin (round_double (of_nat i / of_nat n))"
  by (simp add: progress_of_def js_div_def)

lemma revealed_of_Fin:
  "0 < n \<Longrightarrow>
   revealed_of i n tc
     = Fin (of_int \<lfloor>round_double (round_double (of_nat i / of_nat n) * of_int tc)\<rfloor>)"
  by (simp add: revealed_of_def js_div_def)

lemma revealed_of_eval:
  assumes "0 < n" and "(of_nat i :: rat) / of_nat n = q" and "round_double q = q'"
    and "of_int tc = t" and "round_double (q' * t) = p" and "\<lfloor>p\<rfloor> = v"
  shows "revealed_of i n tc = Fin (of_int v)"
  by (simp only: revealed_of_Fin[OF assms(1)] assms(2-6))

lemma revealed_of_92800: "revealed_of 92800 640000 200 = Fin 28"
proof -
  have "revealed_of 92800 640000 200 = Fin (of_int 28)"
  proof (rule revealed_of_eval)
    show "(0 :: nat) < 640000" by simp
    show "(of_nat 92800 :: rat) / of_nat 640000 = 29 / 200" by simp
    show "round_double (29 / 200) = 5224175567749775 / 2 ^ 55"
      by (rule round_double_29_200)
    show "(of_int 200 :: rat) = 200" by simp
    show "round_double (5224175567749775 / 2 ^ 55 * 200) = 8162774324609023 / 2 ^ 48"
      by (rule round_double_29_200_times)
    show "\<lfloor>(8162774324609023 :: rat) / 2 ^ 48\<rfloor> = 28"
      by (rule floor_unique) simp_all
  qed
  then show ?thesis by simp
qed

lemma revealed_of_3200: "revealed_of 3200 640000 1185512 = Fin 5927"
proof -
  have "revealed_of 3200 640000 1185512 = Fin (of_int 5927)"
  proof (rule revealed_of_eval)
    show "(0 :: nat) < 640000" by simp
    show "(of_nat 3200 :: rat) / of_nat 640000 = 1 / 200" by simp
    show "round_double (1 / 200) = 5764607523034235 / 2 ^ 60"
      by (rule round_double_1_200)
    show "(of_int 1185512 :: rat) = 1185512" by simp
    show "round_double (5764607523034235 / 2 ^ 60 * 1185512) = 6517421144339907 / 2 ^ 40"
      by (rule round_double_1_200_times)
    show "\<lfloor>(6517421144339907 :: rat) / 2 ^ 40\<rfloor> = 5927"
      by (rule floor_unique) simp_all
  qed
  then show ?thesis by simp
qed

lemma revealed_of_6400: "revealed_of 6400 640000 1185512 = Fin 11855"
proof -
  have "revealed_of 6400 640000 1185512 = Fin (of_int 11855)"
  proof (rule revealed_of_eval)
    show "(0 :: nat) < 640000" by simp
    show "(of_nat 6400 :: rat) / of_nat 640000 = 1 / 100" by simp
    show "round_double (1 / 100) = 5764607523034235 / 2 ^ 59"
      by (rule round_double_1_100)
    show "(of_int 1185512 :: rat) = 1185512" by simp
    show "round_double (5764607523034235 / 2 ^ 59 * 1185512) = 6517421144339907 / 2 ^ 39"
      by (rule round_double_1_100_times)
    show "\<lfloor>(6517421144339907 :: rat) / 2 ^ 39\<rfloor> = 11855"
      by (rule floor_unique) simp_all
  qed
  then show ?thesis by simp
qed

lemma revealed_of_320000: "revealed_of 320000 640000 1185512 = Fin 592756"
proof -
  have "revealed_of 320000 640000 1185512 = Fin (of_int 592756)"
  proof (rule revealed_of_eval)
    show "(0 :: nat) < 640000" by simp
    show "(of_nat 320000 :: rat) / of_nat 640000 = 1 / 2" by simp
    show "round_double (1 / 2) = 1 / 2"
      by (rule round_double_half)
    show "(of_int 1185512 :: rat) = 1185512" by simp
    show "round_double (1 / 2 * 1185512) = 592756"
      using round_double_592756 by simp
    show "\<lfloor>592756 :: rat\<rfloor> = 592756"
      by simp
  qed
  then show ?thesis by simp
qed

lemma progress_of_3200: "progress_of 3200 640000 = Fin (5764607523034235 / 2 ^ 60)"
proof -
  have "(of_nat 3200 :: rat) / of_nat 640000 = 1 / 200" by simp
  then show ?thesis
    by (simp only: progress_of_def js_div_def round_double_1_200) simp
qed

lemma progress_of_320000: "progress_of 320000 640000 = Fin (1 / 2)"
proof -
  have "(of_nat 320000 :: rat) / of_nat 640000 = 1 / 2" by simp
  then show ?thesis
    by (simp only: progress_of_def js_div_def round_double_half) simp
qed

lemma two_colours_eq:
  "two_colours w h = (initial_page w h)\<lparr>selectedPaletteColors := {Rouge, Bleu}\<rparr>"
  by (simp add: two_colours_def togglePaletteColor_def initial_page_def)

lemma generating_eq:
  "generating w h =
     (initial_page w h)\<lparr>selectedPaletteColors := {Rouge, Bleu},
        isPaletteGenerating := True,
        dotsRef := shuffle rnd_half (grid w h),
        canvasRef := Some \<lparr>width = w, height = h, filled = True, cleared = []\<rparr>\<rparr>"
  by (simp add: generating_def two_colours_eq handleGeneratePalette_begin_def initial_page_def
        initRevealDots_def fillRect_def Let_def)

lemma revealing_eq:
  "revealing w h (response_ok c t) =
     (generating w h)\<lparr>palettePreview := Some (''/generated/preview.png'' @ ''?t='' @ ''0''),
        paletteCount := Fin (of_int (js_or t c)),
        paletteResult := Some (response_ok c t),
        isPaletteGenerating := False,
        isPaletteRevealing := True,
        frames := [1 \<mapsto> \<lparr>dots = shuffle rnd_half (grid w h), currentIndex = 0,
                               totalCount = js_or t c\<rparr>],
        nextHandle := 2,
        animationRef := Some 1\<rparr>"
  by (simp add: revealing_def answered_def generating_eq handleGeneratePalette_response_def
        response_ok_def displayCount_def startRevealAnimation_def requestAnimationFrame_def
        initial_page_def)

lemma frames_nth_run_reveal:
  "frames s h = Some cb \<Longrightarrow> Suc k < length (run_reveal h s) \<Longrightarrow>
   frames (run_reveal h s ! k) (nextHandle s + k) = Some (cb\<lparr>currentIndex := cursor_at cb k\<rparr>)
   \<and> animationRef (run_reveal h s ! k) = Some (nextHandle s + k)"
proof (induction h s arbitrary: cb k rule: run_reveal.induct)
  case (1 h s)
  note fr = "1.prems"(1)
  show ?case
  proof (cases "currentIndex cb + dotsPerFrame (dots cb) < length (dots cb)")
    case True
    let ?cb' = "cb\<lparr>currentIndex := currentIndex cb + dotsPerFrame (dots cb)\<rparr>"
    let ?s' = "animationFrame h s"
    have fr': "frames ?s' (nextHandle s) = Some ?cb'"
      using fr True by (rule frames_after_resched)
    have run: "run_reveal h s = ?s' # run_reveal (nextHandle s) ?s'"
      using fr True by (rule run_reveal_resched)
    have nx: "nextHandle ?s' = Suc (nextHandle s)"
      by (simp add: animationFrame_resched[OF fr True])
    show ?thesis
    proof (cases k)
      case 0
      then show ?thesis
        using True by (simp add: run animationFrame_resched[OF fr True] cursor_at_0_resched)
    next
      case (Suc k')
      have k': "Suc k' < length (run_reveal (nextHandle s) ?s')"
        using "1.prems"(2) Suc run by simp
      show ?thesis
        using "1.IH"[OF fr True fr' k'] nx
        by (simp add: run Suc cursor_at_Suc)
    qed
  next
    case False
    then show ?thesis
      using "1.prems"(2) run_reveal_final[OF fr False] by simp
  qed
qed


lemma length_run_reveal_start:
  assumes "canvasRef s = Some cv" and "dotsRef s \<noteq> []"
  shows "length (run_reveal (nextHandle s) (startRevealAnimation tc s))
           = (length (dotsRef s) + dotsPerFrame (dotsRef s) - 1) div dotsPerFrame (dotsRef s)"
proof -
  have fr: "frames (startRevealAnimation tc s) (nextHandle s)
              = Some \<lparr>dots = dotsRef s, currentIndex = 0, totalCount = tc\<rparr>"
    by (simp add: startRevealAnimation_Some[OF assms(1)])
  show ?thesis
    using length_run_reveal[OF fr] assms(2) by simp
qed

lemma answered_eq:
  "answered w h (response_ok c t) =
     (generating w h)\<lparr>palettePreview := Some (''/generated/preview.png'' @ ''?t='' @ ''0''),
        paletteCount := Fin (of_int (js_or t c)),
        paletteResult := Some (response_ok c t),
        isPaletteGenerating := False\<rparr>"
  by (simp add: answered_def handleGeneratePalette_response_def response_ok_def displayCount_def)

lemma answered_fields:
  "canvasRef (answered w h (response_ok c t))
     = Some \<lparr>width = w, height = h, filled = True, cleared = []\<rparr>"
  "dotsRef (answered w h (response_ok c t)) = shuffle rnd_half (grid w h)"
  "nextHandle (answered w h (response_ok c t)) = 1"
  "frames (answered w h (response_ok c t)) = Map.empty"
  by (simp_all add: answered_eq generating_eq initial_page_def)

lemma random_index_bound:
  assumes "0 \<le> r" and "r \<le> 1 - 1 / 2 ^ 53"
  shows "\<lfloor>round_double (r * of_nat (i + 1))\<rfloor> < int (i + 1)"
proof -
  define n :: rat where "n = of_nat (i + 1)"
  define eps :: rat where "eps = 1 / 2 ^ 53"
  have n: "0 < n" by (simp add: n_def)
  have eps: "0 < eps" by (simp add: eps_def)
  have r: "r \<le> 1 - eps" using assms(2) by (simp only: eps_def)
  have p0: "0 \<le> r * n"
    using assms(1) n by simp
  have "\<bar>round_double (r * n) - r * n\<bar> \<le> r * n / 2 ^ 53"
    using p0 by (rule round_double_error)
  moreover have "r * n / 2 ^ 53 = r * n * eps"
    by (simp add: eps_def)
  ultimately have a: "round_double (r * n) \<le> r * n + r * n * eps"
    by linarith
  have "r * n \<le> (1 - eps) * n"
    using r less_imp_le[OF n] by (rule mult_right_mono)
  moreover have "r * n * eps \<le> (1 - eps) * n * eps"
    using calculation less_imp_le[OF eps] by (rule mult_right_mono)
  ultimately have b: "r * n + r * n * eps \<le> (1 - eps) * n + (1 - eps) * n * eps"
    by linarith
  have c: "(1 - eps) * n + (1 - eps) * n * eps = n - n * (eps * eps)"
    by (simp add: algebra_simps)
  have "0 < n * (eps * eps)"
    using n eps by simp
  then have "round_double (r * n) < n"
    using a b c by linarith
  then have "round_double (r * of_nat (i + 1)) < of_int (int (i + 1))"
    by (simp add: n_def)
  then show ?thesis
    by (simp only: floor_less_iff)
qed

lemma random_index_le:
  assumes "is_double (rnd i)" and "0 \<le> rnd i" and "rnd i < 1"
  shows "random_index rnd i \<le> i"
proof -
  have "rnd i \<le> 1 - 1 / 2 ^ 53"
    using assms by (rule is_double_below_1)
  then have "\<lfloor>round_double (rnd i * of_nat (i + 1))\<rfloor> < int (i + 1)"
    using assms(2) by (intro random_index_bound)
  then show ?thesis
    by (simp add: random_index_def)
qed

lemma mset_swap_dots:
  "i < length ds \<Longrightarrow> j < length ds \<Longrightarrow> mset (swap i j ds) = mset ds"
  unfolding swap_def by (rule mset_swap)

lemma mset_shuffle_from:
  assumes "\<forall>i. is_double (rnd i) \<and> 0 \<le> rnd i \<and> rnd i < 1"
  shows "k < length ds \<Longrightarrow> mset (shuffle_from rnd k ds) = mset ds"
proof (induction k arbitrary: ds)
  case 0
  then show ?case by simp
next
  case (Suc k)
  have j: "random_index rnd (Suc k) < length ds"
    using random_index_le[of rnd "Suc k"] assms Suc.prems by (simp add: le_less_trans)
  have "mset (shuffle_from rnd k (swap (Suc k) (random_index rnd (Suc k)) ds))
          = mset (swap (Suc k) (random_index rnd (Suc k)) ds)"
    using Suc.prems by (intro Suc.IH) simp
  then show ?case
    using Suc.prems j by (simp add: mset_swap_dots)
qed

lemma mset_shuffle:
  assumes "\<forall>i. is_double (rnd i) \<and> 0 \<le> rnd i \<and> rnd i < 1"
  shows "mset (shuffle rnd ds) = mset ds"
proof (cases ds)
  case Nil
  then show ?thesis by (simp add: shuffle_def)
next
  case (Cons d ds')
  then show ?thesis
    using mset_shuffle_from[OF assms, of "length ds - 1" ds] by (simp add: shuffle_def)
qed

lemma map_pixel_grid:
  "map pixel (grid w h) = map (\<lambda>p. (snd p, fst p)) (List.product [0..<h] [0..<w])"
  by (simp add: grid_product pixel_def comp_def case_prod_unfold)

lemma distinct_map_pixel_grid: "distinct (map pixel (grid w h))"
proof -
  have "inj_on (\<lambda>p :: nat \<times> nat. (snd p, fst p)) A" for A
    by (rule inj_onI) (simp add: prod_eq_iff)
  then show ?thesis
    unfolding map_pixel_grid by (simp add: distinct_map distinct_product)
qed

lemma set_map_pixel_grid: "set (map pixel (grid w h)) = {(px, py). px < w \<and> py < h}"
proof -
  have "(\<lambda>p :: nat \<times> nat. (snd p, fst p)) ` ({0..<h} \<times> {0..<w}) = {(px, py). px < w \<and> py < h}"
    by force
  then show ?thesis
    unfolding map_pixel_grid by simp
qed

lemma inj_pixel: "inj pixel"
  by (rule injI) (simp add: pixel_def)


lemma count_list_pixels:
  assumes "mset ds = mset (grid w h)"
  shows "count_list (map pixel ds) (px, py) = (if px < w \<and> py < h then 1 else 0)"
proof -
  have "mset (map pixel ds) = mset (map pixel (grid w h))"
    using assms by simp
  then have "count (mset (map pixel ds)) (px, py) = count (mset (map pixel (grid w h))) (px, py)"
    by (rule arg_cong)
  then have "count_list (map pixel ds) (px, py) = count (mset (map pixel (grid w h))) (px, py)"
    by (simp only: count_mset)
  also have "\<dots> = (if (px, py) \<in> set (map pixel (grid w h)) then 1 else 0)"
    using distinct_map_pixel_grid[of w h] by (simp only: distinct_count_atmost_1)
  also have "\<dots> = (if px < w \<and> py < h then 1 else 0)"
    unfolding set_map_pixel_grid by simp
  finally show ?thesis .
qed

lemma count_list_grid:
  "count_list (grid w h) \<lparr>dot_x = px, dot_y = py\<rparr> = (if px < w \<and> py < h then 1 else 0)"
proof -
  have "count_list (map pixel (grid w h)) (pixel \<lparr>dot_x = px, dot_y = py\<rparr>)
          = count_list (grid w h) \<lparr>dot_x = px, dot_y = py\<rparr>"
    using inj_pixel by (rule count_list_map_conv)
  moreover have "pixel \<lparr>dot_x = px, dot_y = py\<rparr> = (px, py)"
    by (simp add: pixel_def)
  ultimately show ?thesis
    using count_list_pixels[of "grid w h" w h px py] by simp
qed

lemma nth_grid:
  assumes "px < w" and "py < h"
  shows "grid w h ! (py * w + px) = \<lparr>dot_x = px, dot_y = py\<rparr>"
proof -
  have "py * w + px < h * w"
  proof -
    have "py * w + px < py * w + w" using assms(1) by simp
    also have "\<dots> = Suc py * w" by simp
    also have "\<dots> \<le> h * w" using assms(2) by (intro mult_le_mono1) simp
    finally show ?thesis .
  qed
  then show ?thesis
    using assms by (simp add: grid_product product_nth)
qed


lemma initRevealDots_fields:
  assumes "canvasRef s = Some cv"
  shows "dotsRef (fst (initRevealDots rnd s)) = shuffle rnd (grid (width cv) (height cv))"
    and "canvasRef (fst (initRevealDots rnd s)) = Some (fillRect cv)"
    and "nextHandle (fst (initRevealDots rnd s)) = nextHandle s"
    and "frames (fst (initRevealDots rnd s)) = frames s"
    and "snd (initRevealDots rnd s) = Some (width cv * height cv)"
  using assms by (simp_all add: initRevealDots_Some)

lemma is_double_rnd_half: "is_double (rnd_half i)"
  by (simp add: is_double_def rnd_half_def round_double_half)

lemma rnd_half_source: "\<forall>i. is_double (rnd_half i) \<and> 0 \<le> rnd_half i \<and> rnd_half i < 1"
  by (simp add: is_double_rnd_half) (simp add: rnd_half_def)

lemma random_index_rnd_half:
  "random_index rnd_half (Suc 0) = Suc 0"
  "random_index rnd_half (Suc (Suc 0)) = Suc 0"
  "random_index rnd_half (Suc (Suc (Suc 0))) = Suc (Suc 0)"
proof -
  have f: "\<lfloor>(3 :: rat) / 2\<rfloor> = 1"
    by (rule floor_unique) simp_all
  show "random_index rnd_half (Suc 0) = Suc 0"
    by (simp add: random_index_def rnd_half_def round_double_1)
  show "random_index rnd_half (Suc (Suc 0)) = Suc 0"
    by (simp add: random_index_def rnd_half_def round_double_three_halves f)
  show "random_index rnd_half (Suc (Suc (Suc 0))) = Suc (Suc 0)"
    by (simp add: random_index_def rnd_half_def round_double_2)
qed




lemma shuffle_2_2:
  "shuffle rnd_half (grid 2 2)
     = [\<lparr>dot_x = 0, dot_y = 0\<rparr>, \<lparr>dot_x = 1, dot_y = 1\<rparr>,
        \<lparr>dot_x = 1, dot_y = 0\<rparr>, \<lparr>dot_x = 0, dot_y = 1\<rparr>]"
proof -
  have g: "grid 2 2
     = [\<lparr>dot_x = 0, dot_y = 0\<rparr>, \<lparr>dot_x = 1, dot_y = 0\<rparr>,
        \<lparr>dot_x = 0, dot_y = 1\<rparr>, \<lparr>dot_x = 1, dot_y = 1\<rparr>]"
    by code_simp
  show ?thesis
    unfolding shuffle_def g
    by (simp add: eval_nat_numeral random_index_rnd_half swap_def)
qed


lemma animationFrame_idle: "frames s h = None \<Longrightarrow> animationFrame h s = s"
  by (simp add: animationFrame_def)

lemma run_reveal_idle: "frames s h = None \<Longrightarrow> run_reveal h s = []"
  by (subst run_reveal.simps) simp

lemma covered_fillRect: "covered (fillRect cv) p"
  by (simp add: covered_def fillRect_def)

lemma begin_cancels:
  assumes "dom (frames s) \<subseteq> {h. animationRef s = Some h \<and> h \<noteq> 0}"
  shows "frames (case animationRef s of None \<Rightarrow> s
                 | Some h \<Rightarrow> if h = 0 then s else cancelAnimationFrame h s) = Map.empty"
proof (rule ext)
  fix h'
  show "frames (case animationRef s of None \<Rightarrow> s
                 | Some h \<Rightarrow> if h = 0 then s else cancelAnimationFrame h s) h' = None"
  proof (cases "frames s h'")
    case None
    then show ?thesis
      by (simp add: cancelAnimationFrame_def split: option.splits)
  next
    case (Some cb)
    then have "h' \<in> dom (frames s)" by auto
    then have "animationRef s = Some h'" and "h' \<noteq> 0"
      using assms by auto
    then show ?thesis
      by (simp add: cancelAnimationFrame_def)
  qed
qed

lemma handleGeneratePalette_begin_sent:
  assumes "2 \<le> card (selectedPaletteColors s)" and "canvasRef s = Some cv"
    and "dom (frames s) \<subseteq> {h. animationRef s = Some h \<and> h \<noteq> 0}"
  shows "snd (handleGeneratePalette_begin rnd s)"
    and "frames (fst (handleGeneratePalette_begin rnd s)) = Map.empty"
    and "canvasRef (fst (handleGeneratePalette_begin rnd s)) = Some (fillRect cv)"
    and "dotsRef (fst (handleGeneratePalette_begin rnd s)) = shuffle rnd (grid (width cv) (height cv))"
    and "paletteCount (fst (handleGeneratePalette_begin rnd s)) = Fin 0"
    and "revealProgress (fst (handleGeneratePalette_begin rnd s)) = Fin 0"
    and "palettePreview (fst (handleGeneratePalette_begin rnd s)) = None"
    and "paletteResult (fst (handleGeneratePalette_begin rnd s)) = None"
    and "paletteError (fst (handleGeneratePalette_begin rnd s)) = None"
    and "isPaletteGenerating (fst (handleGeneratePalette_begin rnd s))"
proof -
  let ?s1 = "case animationRef s of None \<Rightarrow> s
             | Some h \<Rightarrow> if h = 0 then s else cancelAnimationFrame h s"
  have c1: "canvasRef ?s1 = Some cv"
    using assms(2) by (simp add: cancelAnimationFrame_def split: option.splits)
  have f1: "frames ?s1 = Map.empty"
    using assms(3) by (rule begin_cancels)
  let ?s2 = "?s1\<lparr>isPaletteGenerating := True, paletteError := None,
                     paletteResult := None, palettePreview := None,
                     paletteCount := Fin 0, revealProgress := Fin 0\<rparr>"
  have c2: "canvasRef ?s2 = Some cv"
    using c1 by simp
  have eq: "handleGeneratePalette_begin rnd s = (fst (initRevealDots rnd ?s2), True)"
    using assms(1) by (simp add: handleGeneratePalette_begin_def Let_def)
  show "snd (handleGeneratePalette_begin rnd s)"
    and "frames (fst (handleGeneratePalette_begin rnd s)) = Map.empty"
    and "canvasRef (fst (handleGeneratePalette_begin rnd s)) = Some (fillRect cv)"
    and "dotsRef (fst (handleGeneratePalette_begin rnd s)) = shuffle rnd (grid (width cv) (height cv))"
    and "paletteCount (fst (handleGeneratePalette_begin rnd s)) = Fin 0"
    and "revealProgress (fst (handleGeneratePalette_begin rnd s)) = Fin 0"
    and "palettePreview (fst (handleGeneratePalette_begin rnd s)) = None"
    and "paletteResult (fst (handleGeneratePalette_begin rnd s)) = None"
    and "paletteError (fst (handleGeneratePalette_begin rnd s)) = None"
    and "isPaletteGenerating (fst (handleGeneratePalette_begin rnd s))"
    using f1 by (simp_all add: eq initRevealDots_Some[OF c2])
qed

lemma revealing_800_frames:
  "frames (revealing 800 800 (response_ok 640000 (Some 1185512))) 1
     = Some \<lparr>dots = shuffle rnd_half (grid 800 800), currentIndex = 0, totalCount = 1185512\<rparr>"
  by (simp add: revealing_eq js_or_def truthy_def)

lemma mid_reveal_eq:
  "mid_reveal =
     (revealing 800 800 (response_ok 640000 (Some 1185512)))
       \<lparr>canvasRef := Some (clear_dots (shuffle rnd_half (grid 800 800)) 0 3200
                           \<lparr>width = 800, height = 800, filled = True, cleared = []\<rparr>),
        paletteCount := Fin 5927,
        revealProgress := Fin (5764607523034235 / 2 ^ 60),
        frames := [2 \<mapsto> \<lparr>dots = shuffle rnd_half (grid 800 800), currentIndex = 3200,
                               totalCount = 1185512\<rparr>],
        nextHandle := 3,
        animationRef := Some 2\<rparr>"
proof -
  let ?cb = "\<lparr>dots = shuffle rnd_half (grid 800 800), currentIndex = 0, totalCount = 1185512\<rparr>"
  have re: "currentIndex ?cb + dotsPerFrame (dots ?cb) < length (dots ?cb)"
    by (simp add: dotsPerFrame_def)
  show ?thesis
    unfolding mid_reveal_def
    by (subst animationFrame_resched[OF revealing_800_frames re])
      (simp add: dotsPerFrame_def revealed_of_3200 progress_of_3200 revealing_eq
         generating_eq initial_page_def js_or_def truthy_def)
qed


lemma setMode_Brumes_mid_reveal:
  "setMode Brumes mid_reveal =
     mid_reveal\<lparr>rencontresMode := Brumes, palettePreview := None, paletteResult := None,
                paletteCount := Fin 0, revealProgress := Fin 0\<rparr>"
  by (simp add: setMode_def mid_reveal_eq revealing_eq generating_eq initial_page_def)



subsection \<open>The Fisher-Yates shuffle\<close>

lemma fisher_yates_upto_0 [simp]: "fisher_yates_upto js 0 ds = ds"
  by (simp add: fisher_yates_upto_def)

lemma fisher_yates_upto_Suc [simp]:
  "fisher_yates_upto js (Suc k) ds = fisher_yates_upto js k (swap (Suc k) (js (Suc k)) ds)"
  by (simp add: fisher_yates_upto_def)

lemma length_fisher_yates_upto [simp]: "length (fisher_yates_upto js k ds) = length ds"
  by (induction k arbitrary: ds) simp_all


























section \<open>Properties\<close>

subsection \<open>The empty permutation\<close>

text \<open>
  C10. When the reveal loop is started while \<^verbatim>\<open>dotsRef.current\<close> is empty, it runs
  exactly one frame. That frame clears no cell, the quotient \<^verbatim>\<open>currentIndex / dots.length\<close>
  is 0 / 0, so the value given to \<^verbatim>\<open>setRevealProgress\<close> and the intermediate
  value \<^verbatim>\<open>revealed\<close> are \<open>NaN\<close>, which is neither at least 0 nor at most 1; the
  frame then ends the session and sets the count to \<^verbatim>\<open>totalCount\<close>.
\<close>

theorem empty_permutation_single_frame:
  assumes "canvasRef s = Some cv" and "dotsRef s = []"
  shows "run_reveal (nextHandle s) (startRevealAnimation tc s)
           = [animationFrame (nextHandle s) (startRevealAnimation tc s)]
       \<and> canvasRef (animationFrame (nextHandle s) (startRevealAnimation tc s)) = Some cv
       \<and> revealed_of 0 0 tc = NaN
       \<and> revealProgress (animationFrame (nextHandle s) (startRevealAnimation tc s)) = NaN
       \<and> \<not> js_le (Fin 0) NaN \<and> \<not> js_le NaN (Fin 1)
       \<and> paletteCount (animationFrame (nextHandle s) (startRevealAnimation tc s)) = Fin (of_int tc)
       \<and> \<not> isPaletteRevealing (animationFrame (nextHandle s) (startRevealAnimation tc s))
       \<and> frames (animationFrame (nextHandle s) (startRevealAnimation tc s)) (nextHandle s) = None"
proof -
  let ?cb = "\<lparr>dots = dotsRef s, currentIndex = 0, totalCount = tc\<rparr>"
  let ?s1 = "startRevealAnimation tc s"
  have fr: "frames ?s1 (nextHandle s) = Some ?cb"
    by (simp add: startRevealAnimation_Some[OF assms(1)])
  have fin: "\<not> currentIndex ?cb + dotsPerFrame (dots ?cb) < length (dots ?cb)"
    using assms(2) by simp
  have run: "run_reveal (nextHandle s) ?s1 = [animationFrame (nextHandle s) ?s1]"
    using fr fin by (rule run_reveal_final)
  have cv: "canvasRef (animationFrame (nextHandle s) ?s1) = Some cv"
    using assms
    by (simp add: animationFrame_final[OF fr fin] startRevealAnimation_unchanged clear_dots_def)
  have nan: "revealed_of 0 0 tc = NaN"
    by (simp add: revealed_of_def js_div_def)
  have prog: "revealProgress (animationFrame (nextHandle s) ?s1) = NaN"
    using assms(2) by (simp add: animationFrame_final[OF fr fin] progress_of_def js_div_def)
  have rest: "paletteCount (animationFrame (nextHandle s) ?s1) = Fin (of_int tc)"
      "\<not> isPaletteRevealing (animationFrame (nextHandle s) ?s1)"
      "frames (animationFrame (nextHandle s) ?s1) (nextHandle s) = None"
    by (simp_all add: animationFrame_final[OF fr fin])
  show ?thesis
    using run cv nan prog rest by simp
qed

text \<open>C10, at the mounted page whose \<^verbatim>\<open>dotsRef\<close> is still the initial empty array.\<close>

theorem empty_permutation_single_frame_witness:
  "canvasRef (initial_page 800 800) = Some \<lparr>width = 800, height = 800, filled = False, cleared = []\<rparr>
   \<and> dotsRef (initial_page 800 800) = []
   \<and> length (run_reveal 1 (startRevealAnimation 500 (initial_page 800 800))) = 1
   \<and> revealProgress (animationFrame 1 (startRevealAnimation 500 (initial_page 800 800))) = NaN
   \<and> paletteCount (animationFrame 1 (startRevealAnimation 500 (initial_page 800 800))) = Fin 500"
  using empty_permutation_single_frame[of "initial_page 800 800"
          "\<lparr>width = 800, height = 800, filled = False, cleared = []\<rparr>" 500]
  by (simp add: initial_page_def)

subsection \<open>Completion\<close>

text \<open>
  C2. A frame reschedules the callback exactly when the cursor after its batch is still
  below \<^verbatim>\<open>dots.length\<close>, and the rescheduled callback carries that cursor. When
  the cursor has reached \<^verbatim>\<open>dots.length\<close>, nothing is rescheduled, the session is
  marked as no longer revealing and the count is set to \<^verbatim>\<open>totalCount\<close> itself.
  The loop always reaches that frame: the last state of the run is not revealing,
  shows \<^verbatim>\<open>totalCount\<close>, and holds no callback of the loop. This holds for every
  \<^verbatim>\<open>totalCount\<close> and every array, whatever the intermediate frames displayed.
\<close>

theorem reveal_reschedules_until_exhausted:
  assumes "frames s h = Some cb"
  shows "(min (currentIndex cb + dotsPerFrame (dots cb)) (length (dots cb)) < length (dots cb) \<longrightarrow>
            frames (animationFrame h s) =
              ((frames s)(h := None))(nextHandle s \<mapsto>
                 cb\<lparr>currentIndex :=
                      min (currentIndex cb + dotsPerFrame (dots cb)) (length (dots cb))\<rparr>)
            \<and> animationRef (animationFrame h s) = Some (nextHandle s)
            \<and> isPaletteRevealing (animationFrame h s) = isPaletteRevealing s)
       \<and> (min (currentIndex cb + dotsPerFrame (dots cb)) (length (dots cb)) = length (dots cb) \<longrightarrow>
            frames (animationFrame h s) = (frames s)(h := None)
            \<and> \<not> isPaletteRevealing (animationFrame h s)
            \<and> paletteCount (animationFrame h s) = Fin (of_int (totalCount cb)))
       \<and> run_reveal h s \<noteq> []
       \<and> \<not> isPaletteRevealing (last (run_reveal h s))
       \<and> paletteCount (last (run_reveal h s)) = Fin (of_int (totalCount cb))
       \<and> dom (frames (last (run_reveal h s))) \<subseteq> dom (frames s) - {h}"
proof -
  have a: "min (currentIndex cb + dotsPerFrame (dots cb)) (length (dots cb)) < length (dots cb) \<longrightarrow>
            frames (animationFrame h s) =
              ((frames s)(h := None))(nextHandle s \<mapsto>
                 cb\<lparr>currentIndex :=
                      min (currentIndex cb + dotsPerFrame (dots cb)) (length (dots cb))\<rparr>)
            \<and> animationRef (animationFrame h s) = Some (nextHandle s)
            \<and> isPaletteRevealing (animationFrame h s) = isPaletteRevealing s"
    using assms by (simp add: animationFrame_resched min_def)
  have b: "min (currentIndex cb + dotsPerFrame (dots cb)) (length (dots cb)) = length (dots cb) \<longrightarrow>
            frames (animationFrame h s) = (frames s)(h := None)
            \<and> \<not> isPaletteRevealing (animationFrame h s)
            \<and> paletteCount (animationFrame h s) = Fin (of_int (totalCount cb))"
    using assms by (simp add: animationFrame_final min_def split: if_splits)
  show ?thesis
    using a b run_reveal_nonempty[OF assms] last_run_reveal(1,2)[OF assms]
      frames_last_run_reveal[OF assms]
    by blast
qed

text \<open>C2, at a 2 by 2 canvas with \<^verbatim>\<open>totalCount\<close> 7.\<close>

theorem reveal_reschedules_until_exhausted_witness:
  "frames (startRevealAnimation 7 (fst (initRevealDots rnd_half (initial_page 2 2)))) 1
     = Some \<lparr>dots = shuffle rnd_half (grid 2 2), currentIndex = 0, totalCount = 7\<rparr>
   \<and> \<not> isPaletteRevealing
        (last (run_reveal 1 (startRevealAnimation 7 (fst (initRevealDots rnd_half (initial_page 2 2))))))
   \<and> paletteCount
        (last (run_reveal 1 (startRevealAnimation 7 (fst (initRevealDots rnd_half (initial_page 2 2))))))
       = Fin 7
   \<and> frames (animationFrame 1
        (startRevealAnimation 7 (fst (initRevealDots rnd_half (initial_page 2 2))))) 1 = None"
proof -
  let ?s = "startRevealAnimation 7 (fst (initRevealDots rnd_half (initial_page 2 2)))"
  let ?cb = "\<lparr>dots = shuffle rnd_half (grid 2 2), currentIndex = 0, totalCount = 7\<rparr>"
  have fr: "frames ?s 1 = Some ?cb"
    by (simp add: initial_page_def initRevealDots_def startRevealAnimation_def
          requestAnimationFrame_def Let_def)
  have nx: "nextHandle ?s = 2"
    by (simp add: initial_page_def initRevealDots_def startRevealAnimation_def
          requestAnimationFrame_def Let_def)
  show ?thesis
    using fr reveal_reschedules_until_exhausted[OF fr]
    by (simp add: dotsPerFrame_def)
qed


subsection \<open>The displayed count\<close>

text \<open>
  C3 as stated gives the count after a batch as the floor of the exact product of
  the quotient cursor / \<^verbatim>\<open>dots.length\<close> and \<^verbatim>\<open>totalCount\<close>. The code computes the
  quotient and the product in double arithmetic, and the floor of the rounded
  product can be smaller. On the 800 by 800 canvas, for a response with
  \<^verbatim>\<open>count\<close> 200 and no \<^verbatim>\<open>total_available\<close>, frame 28 leaves the cursor at 92800 of
  640000; the quotient is stored as the double next below 29 / 200, its product by
  200 is rounded to the double next below 29, and the count shown is 28, where the
  floor of the exact product is 29.
\<close>

theorem count_below_exact_floor:
  "frames (revealing 800 800 (response_ok 200 None)) 1
     = Some \<lparr>dots = shuffle rnd_half (grid 800 800), currentIndex = 0, totalCount = 200\<rparr>
   \<and> length (shuffle rnd_half (grid 800 800)) = 640000
   \<and> cursor_at \<lparr>dots = shuffle rnd_half (grid 800 800), currentIndex = 0, totalCount = 200\<rparr> 28
       = 92800
   \<and> 28 < length (run_reveal 1 (revealing 800 800 (response_ok 200 None)))
   \<and> paletteCount (run_reveal 1 (revealing 800 800 (response_ok 200 None)) ! 28) = Fin 28
   \<and> \<lfloor>(92800 :: rat) / 640000 * 200\<rfloor> = 29
   \<and> paletteCount (run_reveal 1 (revealing 800 800 (response_ok 200 None)) ! 28)
       \<noteq> Fin (of_int \<lfloor>(92800 :: rat) / 640000 * 200\<rfloor>)"
proof -
  let ?s = "revealing 800 800 (response_ok 200 None)"
  let ?cb = "\<lparr>dots = shuffle rnd_half (grid 800 800), currentIndex = 0, totalCount = 200\<rparr>"
  have fr: "frames ?s 1 = Some ?cb"
    by (simp add: revealing_eq js_or_def)
  have n: "length (shuffle rnd_half (grid 800 800)) = 640000"
    by simp
  have len: "length (run_reveal 1 ?s) = 200"
    using length_run_reveal[OF fr] by (simp add: dotsPerFrame_def)
  have k: "28 < length (run_reveal 1 ?s)"
    using len by simp
  have c: "cursor_at ?cb 28 = 92800"
    by (simp add: cursor_at_def dotsPerFrame_def)
  have v: "paletteCount (run_reveal 1 ?s ! 28) = Fin 28"
    using nth_run_reveal[OF fr k] by (simp add: c revealed_of_92800)
  have f: "\<lfloor>(92800 :: rat) / 640000 * 200\<rfloor> = 29"
    by (rule floor_unique) simp_all
  have d: "paletteCount (run_reveal 1 ?s ! 28) \<noteq> Fin (of_int \<lfloor>(92800 :: rat) / 640000 * 200\<rfloor>)"
    by (simp only: v f) simp
  show ?thesis
    using fr n c k v f d by (intro conjI)
qed

text \<open>
  C3, amended. With a non-empty array, the frame number \<open>k\<close> of a reveal sets the
  progress to the quotient of the cursor by \<^verbatim>\<open>dots.length\<close>, rounded to a double.
  While the cursor is below \<^verbatim>\<open>dots.length\<close> the frame sets the count to the floor of
  the product of that double and \<^verbatim>\<open>totalCount\<close>, rounded to a double; the last frame
  sets it to \<^verbatim>\<open>totalCount\<close> itself. The count is computed from the cursor alone;
  the rescheduled callback carries the cursor. For 640000 cells and \<^verbatim>\<open>totalCount\<close>
  1185512 the reveal has 200 frames; after frame 99 the cursor is 320000, the progress
  is one half and the count is 592756, and after the last frame the count is
  1185512. For 640000 cells and \<^verbatim>\<open>totalCount\<close> 200 the count after frame 28, at cursor
  92800, is 28.
\<close>

theorem count_derived_from_progress:
  assumes "frames s h = Some cb" and "0 < length (dots cb)" and "k < length (run_reveal h s)"
  shows "revealProgress (run_reveal h s ! k)
           = Fin (round_double (of_nat (cursor_at cb k) / of_nat (length (dots cb))))
       \<and> paletteCount (run_reveal h s ! k)
           = (if Suc k < length (run_reveal h s)
              then Fin (of_int \<lfloor>round_double
                     (round_double (of_nat (cursor_at cb k) / of_nat (length (dots cb)))
                        * of_int (totalCount cb))\<rfloor>)
              else Fin (of_int (totalCount cb)))
       \<and> (Suc k < length (run_reveal h s) \<longrightarrow>
            frames (run_reveal h s ! k) (nextHandle s + k)
              = Some (cb\<lparr>currentIndex := cursor_at cb k\<rparr>))
       \<and> (length (dots cb) = 640000 \<and> currentIndex cb = 0 \<and> totalCount cb = 1185512 \<longrightarrow>
            length (run_reveal h s) = 200
            \<and> cursor_at cb 99 = 320000
            \<and> revealProgress (run_reveal h s ! 99) = Fin (1 / 2)
            \<and> paletteCount (run_reveal h s ! 99) = Fin 592756
            \<and> cursor_at cb 199 = 640000
            \<and> paletteCount (run_reveal h s ! 199) = Fin 1185512
            \<and> paletteCount (last (run_reveal h s)) = Fin 1185512)
       \<and> (length (dots cb) = 640000 \<and> currentIndex cb = 0 \<and> totalCount cb = 200 \<longrightarrow>
            cursor_at cb 28 = 92800
            \<and> paletteCount (run_reveal h s ! 28) = Fin 28)"
proof -
  note n = nth_run_reveal[OF assms(1,3)]
  have p: "revealProgress (run_reveal h s ! k)
           = Fin (round_double (of_nat (cursor_at cb k) / of_nat (length (dots cb))))"
    using n assms(2) by (simp add: progress_of_Fin)
  have c: "paletteCount (run_reveal h s ! k)
           = (if Suc k < length (run_reveal h s)
              then Fin (of_int \<lfloor>round_double
                     (round_double (of_nat (cursor_at cb k) / of_nat (length (dots cb)))
                        * of_int (totalCount cb))\<rfloor>)
              else Fin (of_int (totalCount cb)))"
    using n assms(2) by (simp add: revealed_of_Fin)
  have i: "length (run_reveal h s) = 200
            \<and> cursor_at cb 99 = 320000
            \<and> revealProgress (run_reveal h s ! 99) = Fin (1 / 2)
            \<and> paletteCount (run_reveal h s ! 99) = Fin 592756
            \<and> cursor_at cb 199 = 640000
            \<and> paletteCount (run_reveal h s ! 199) = Fin 1185512
            \<and> paletteCount (last (run_reveal h s)) = Fin 1185512"
    if n: "length (dots cb) = 640000" and z: "currentIndex cb = 0" and t: "totalCount cb = 1185512"
  proof -
    have B: "dotsPerFrame (dots cb) = 3200"
      using n by (simp add: dotsPerFrame_def)
    have len: "length (run_reveal h s) = 200"
      using length_run_reveal[OF assms(1)] n z B by simp
    have c99: "cursor_at cb 99 = 320000" and c199: "cursor_at cb 199 = 640000"
      using n z B by (simp_all add: cursor_at_def)
    have k99: "99 < length (run_reveal h s)" and k199: "199 < length (run_reveal h s)"
      using len by simp_all
    have p99: "revealProgress (run_reveal h s ! 99) = Fin (1 / 2)"
      using nth_run_reveal[OF assms(1) k99] by (simp add: c99 n progress_of_320000)
    have v99: "paletteCount (run_reveal h s ! 99) = Fin 592756"
      using nth_run_reveal[OF assms(1) k99] by (simp add: c99 n t revealed_of_320000)
    have v199: "paletteCount (run_reveal h s ! 199) = Fin 1185512"
      using nth_run_reveal[OF assms(1) k199] by (simp add: c199 n t)
    have vl: "paletteCount (last (run_reveal h s)) = Fin 1185512"
      using last_run_reveal(2)[OF assms(1)] t by simp
    show ?thesis
      using len c99 p99 v99 c199 v199 vl by (intro conjI)
  qed
  have j: "cursor_at cb 28 = 92800 \<and> paletteCount (run_reveal h s ! 28) = Fin 28"
    if n: "length (dots cb) = 640000" and z: "currentIndex cb = 0" and t: "totalCount cb = 200"
  proof -
    have B: "dotsPerFrame (dots cb) = 3200"
      using n by (simp add: dotsPerFrame_def)
    have len: "length (run_reveal h s) = 200"
      using length_run_reveal[OF assms(1)] n z B by simp
    have c28: "cursor_at cb 28 = 92800"
      using n z B by (simp add: cursor_at_def)
    have k28: "28 < length (run_reveal h s)"
      using len by simp
    have v28: "paletteCount (run_reveal h s ! 28) = Fin 28"
      using nth_run_reveal[OF assms(1) k28] by (simp add: c28 n t revealed_of_92800)
    show ?thesis
      using c28 v28 by (intro conjI)
  qed
  have l: "Suc k < length (run_reveal h s) \<longrightarrow>
            frames (run_reveal h s ! k) (nextHandle s + k)
              = Some (cb\<lparr>currentIndex := cursor_at cb k\<rparr>)"
    using frames_nth_run_reveal[OF assms(1)] by blast
  have i': "length (dots cb) = 640000 \<and> currentIndex cb = 0 \<and> totalCount cb = 1185512 \<longrightarrow>
            length (run_reveal h s) = 200
            \<and> cursor_at cb 99 = 320000
            \<and> revealProgress (run_reveal h s ! 99) = Fin (1 / 2)
            \<and> paletteCount (run_reveal h s ! 99) = Fin 592756
            \<and> cursor_at cb 199 = 640000
            \<and> paletteCount (run_reveal h s ! 199) = Fin 1185512
            \<and> paletteCount (last (run_reveal h s)) = Fin 1185512"
    using i by blast
  have j': "length (dots cb) = 640000 \<and> currentIndex cb = 0 \<and> totalCount cb = 200 \<longrightarrow>
            cursor_at cb 28 = 92800
            \<and> paletteCount (run_reveal h s ! 28) = Fin 28"
    using j by blast
  show ?thesis
    using p c l i' j' by (intro conjI)
qed

text \<open>C3, amended, at the 800 by 800 canvas with a response whose total is 1185512.\<close>

theorem count_derived_from_progress_witness:
  "frames (revealing 800 800 (response_ok 640000 (Some 1185512))) 1
     = Some \<lparr>dots = shuffle rnd_half (grid 800 800), currentIndex = 0, totalCount = 1185512\<rparr>
   \<and> length (run_reveal 1 (revealing 800 800 (response_ok 640000 (Some 1185512)))) = 200
   \<and> revealProgress (run_reveal 1 (revealing 800 800 (response_ok 640000 (Some 1185512))) ! 99)
       = Fin (1 / 2)
   \<and> paletteCount (run_reveal 1 (revealing 800 800 (response_ok 640000 (Some 1185512))) ! 99)
       = Fin 592756
   \<and> paletteCount (last (run_reveal 1 (revealing 800 800 (response_ok 640000 (Some 1185512)))))
       = Fin 1185512"
proof -
  let ?s = "revealing 800 800 (response_ok 640000 (Some 1185512))"
  let ?cb = "\<lparr>dots = shuffle rnd_half (grid 800 800), currentIndex = 0, totalCount = 1185512\<rparr>"
  have fr: "frames ?s 1 = Some ?cb"
    by (simp add: revealing_eq js_or_def truthy_def)
  have n: "length (dots ?cb) = 640000"
    by simp
  have pos: "0 < length (dots ?cb)"
    by simp
  have len: "length (run_reveal 1 ?s) = 200"
    using length_run_reveal[OF fr] by (simp add: dotsPerFrame_def)
  have k: "99 < length (run_reveal 1 ?s)"
    using len by simp
  have z: "length (dots ?cb) = 640000 \<and> currentIndex ?cb = 0 \<and> totalCount ?cb = 1185512"
    by simp
  have "length (run_reveal 1 ?s) = 200
            \<and> cursor_at ?cb 99 = 320000
            \<and> revealProgress (run_reveal 1 ?s ! 99) = Fin (1 / 2)
            \<and> paletteCount (run_reveal 1 ?s ! 99) = Fin 592756
            \<and> cursor_at ?cb 199 = 640000
            \<and> paletteCount (run_reveal 1 ?s ! 199) = Fin 1185512
            \<and> paletteCount (last (run_reveal 1 ?s)) = Fin 1185512"
    using count_derived_from_progress[OF fr pos k] z by blast
  then have a: "revealProgress (run_reveal 1 ?s ! 99) = Fin (1 / 2)"
    and b: "paletteCount (run_reveal 1 ?s ! 99) = Fin 592756"
    and c: "paletteCount (last (run_reveal 1 ?s)) = Fin 1185512"
    by blast+
  show ?thesis
    using fr len a b c by (intro conjI)
qed

subsection \<open>The target total\<close>

text \<open>
  C7 as stated says that \<^verbatim>\<open>total_available\<close> is used when present and positive
  and \<^verbatim>\<open>count\<close> otherwise. The operator \<^verbatim>\<open>||\<close> tests truthiness, so a negative
  \<^verbatim>\<open>total_available\<close> is used as it is: with \<^verbatim>\<open>total_available\<close> -1 and
  \<^verbatim>\<open>count\<close> 500 the target is -1, not 500.
\<close>

theorem displayCount_negative_total:
  "displayCount (response_ok 500 (Some (- 1))) = - 1
   \<and> \<not> (0 :: int) < - 1
   \<and> displayCount (response_ok 500 (Some (- 1))) \<noteq> 500"
  by (simp add: displayCount_def js_or_def truthy_def response_ok_def)

text \<open>
  C7, amended. \<^verbatim>\<open>total_available\<close> is the target when it is present and not zero,
  and \<^verbatim>\<open>count\<close> is the target otherwise; for a total that is not negative this is
  "present and positive". An absent total and a total of 0 both fall back to
  \<^verbatim>\<open>count\<close>. The value is the one handed to \<^verbatim>\<open>startRevealAnimation\<close>.
\<close>

theorem displayCount_uses_truthy_total:
  "(data_total_available data = Some t \<and> t \<noteq> 0 \<longrightarrow> displayCount data = t)
   \<and> (data_total_available data = Some t \<and> 0 \<le> t \<longrightarrow>
        displayCount data = (if 0 < t then t else data_count data))
   \<and> (data_total_available data = None \<longrightarrow> displayCount data = data_count data)
   \<and> (data_total_available data = Some 0 \<longrightarrow> displayCount data = data_count data)
   \<and> (data_error data = None \<longrightarrow>
        snd (handleGeneratePalette_response now data s) = Some (displayCount data))"
  by (auto simp add: displayCount_def js_or_def truthy_def handleGeneratePalette_response_def)

text \<open>
  C7, amended, at a response with \<^verbatim>\<open>count\<close> 500 and no total, at one with total 0,
  and at one with total 1185512.
\<close>

theorem displayCount_uses_truthy_total_witness:
  "displayCount (response_ok 500 None) = 500
   \<and> displayCount (response_ok 500 (Some 0)) = 500
   \<and> displayCount (response_ok 640000 (Some 1185512)) = 1185512
   \<and> snd (handleGeneratePalette_response ''0'' (response_ok 500 None) (generating 2 2)) = Some 500"
  using displayCount_uses_truthy_total[of "response_ok 500 None" 0 "''0''" "generating 2 2"]
    displayCount_uses_truthy_total[of "response_ok 500 (Some 0)" 0 "''0''" "generating 2 2"]
    displayCount_uses_truthy_total[of "response_ok 640000 (Some 1185512)" 1185512 "''0''" "generating 2 2"]
  by (simp add: response_ok_def)

subsection \<open>Frames to completion\<close>

text \<open>
  C4. \<^verbatim>\<open>dotsPerFrame\<close> is the larger of 2000 and the integer quotient of
  \<^verbatim>\<open>dots.length\<close> by 200. A reveal runs on the array that \<^verbatim>\<open>initRevealDots\<close> has
  stored for the canvas, which the JSX fixes at 800 by 800, so the array is not
  empty (the empty array is the subject of C10). The reveal started by
  \<^verbatim>\<open>startRevealAnimation\<close> then runs exactly the ceiling of \<^verbatim>\<open>dots.length\<close> divided by
  \<^verbatim>\<open>dotsPerFrame\<close> frames. Frame \<open>k\<close> starts below \<^verbatim>\<open>dots.length\<close>, and after it the
  cells cleared are the first \<open>(k + 1) * dotsPerFrame\<close> cells of the array, or all of
  them after the last frame: every frame but the last clears exactly
  \<^verbatim>\<open>dotsPerFrame\<close> cells, the last one the remainder. For 1000000 cells
  \<^verbatim>\<open>dotsPerFrame\<close> is 5000 and the reveal takes 200 frames.
\<close>

theorem frames_to_completion:
  assumes "canvasRef s = Some cv" and "dotsRef s \<noteq> []"
  shows "dotsPerFrame (dotsRef s) = max 2000 (length (dotsRef s) div 200)
       \<and> length (run_reveal (nextHandle s) (startRevealAnimation tc s))
           = (length (dotsRef s) + dotsPerFrame (dotsRef s) - 1) div dotsPerFrame (dotsRef s)
       \<and> (\<forall>k < length (run_reveal (nextHandle s) (startRevealAnimation tc s)).
             map_option cleared
               (canvasRef (run_reveal (nextHandle s) (startRevealAnimation tc s) ! k))
             = Some (cleared cv @ map pixel
                 (take (if Suc k < length (run_reveal (nextHandle s) (startRevealAnimation tc s))
                        then Suc k * dotsPerFrame (dotsRef s) else length (dotsRef s))
                    (dotsRef s)))
             \<and> k * dotsPerFrame (dotsRef s) < length (dotsRef s))
       \<and> (length (dotsRef s) = 1000000 \<longrightarrow>
             dotsPerFrame (dotsRef s) = 5000
             \<and> length (run_reveal (nextHandle s) (startRevealAnimation tc s)) = 200)"
proof -
  let ?s1 = "startRevealAnimation tc s"
  let ?cb = "\<lparr>dots = dotsRef s, currentIndex = 0, totalCount = tc\<rparr>"
  let ?r = "run_reveal (nextHandle s) ?s1"
  let ?B = "dotsPerFrame (dotsRef s)"
  let ?N = "length (dotsRef s)"
  have fr: "frames ?s1 (nextHandle s) = Some ?cb"
    by (simp add: startRevealAnimation_Some[OF assms(1)])
  have len: "length ?r = (?N + ?B - 1) div ?B"
    using assms by (rule length_run_reveal_start)
  have batch: "map_option cleared (canvasRef (?r ! k))
             = Some (cleared cv @ map pixel
                 (take (if Suc k < length ?r then Suc k * ?B else ?N) (dotsRef s)))
             \<and> k * ?B < ?N" if k: "k < length ?r" for k
  proof -
    note n = nth_run_reveal[OF fr k]
    have cur: "cursor_at ?cb k = (if Suc k < length ?r then Suc k * ?B else ?N)"
    proof (cases "Suc k < length ?r")
      case True
      then have "cursor_at ?cb k < ?N" using n by simp
      then show ?thesis using True by (simp add: cursor_at_def)
    next
      case False
      then have "\<not> cursor_at ?cb k < ?N" using n by simp
      then show ?thesis using False cursor_at_le[of ?cb k] by simp
    qed
    have le: "cursor_at ?cb k \<le> ?N"
      using cursor_at_le[of ?cb k] by simp
    have cv: "canvasRef (?r ! k) = Some (clear_dots (dotsRef s) 0 (cursor_at ?cb k) cv)"
      using n assms(1) by (simp add: startRevealAnimation_unchanged)
    have log: "map_option cleared (canvasRef (?r ! k))
             = Some (cleared cv @ map pixel
                 (take (if Suc k < length ?r then Suc k * ?B else ?N) (dotsRef s)))"
      using cleared_clear_dots_take[of 0 "cursor_at ?cb k" "dotsRef s" cv] le
      by (simp add: cv cur)
    have start: "k * ?B < ?N"
    proof (cases k)
      case 0
      then show ?thesis using assms(2) by simp
    next
      case (Suc j)
      have j: "j < length ?r" using k Suc by simp
      have "cursor_at ?cb j < ?N"
        using nth_run_reveal[OF fr j] k Suc by simp
      then show ?thesis
        using Suc by (simp add: cursor_at_def)
    qed
    show ?thesis using log start by simp
  qed
  have B: "?B = max 2000 (?N div 200)"
    by (simp add: dotsPerFrame_def)
  have inst: "?B = 5000 \<and> length ?r = 200" if N: "?N = 1000000"
  proof -
    have b: "?B = 5000"
      by (simp add: B N)
    have "length ?r = (1000000 + 5000 - 1) div 5000"
      by (simp only: len b N)
    then show ?thesis
      using b by simp
  qed
  show ?thesis
    using B len batch inst by blast
qed


text \<open>C4, at a 1000 by 1000 canvas.\<close>

theorem frames_to_completion_witness:
  "canvasRef (answered 1000 1000 (response_ok 1000000 None))
     = Some \<lparr>width = 1000, height = 1000, filled = True, cleared = []\<rparr>
   \<and> dotsRef (answered 1000 1000 (response_ok 1000000 None)) \<noteq> []
   \<and> dotsPerFrame (dotsRef (answered 1000 1000 (response_ok 1000000 None))) = 5000
   \<and> length (run_reveal 1 (revealing 1000 1000 (response_ok 1000000 None))) = 200"
proof -
  let ?s = "answered 1000 1000 (response_ok 1000000 None)"
  let ?cv = "\<lparr>width = 1000, height = 1000, filled = True, cleared = []\<rparr>"
  have cv: "canvasRef ?s = Some ?cv"
    by (simp add: answered_fields)
  have n: "length (dotsRef ?s) = 1000000"
    by (simp add: answered_fields)
  have ne: "dotsRef ?s \<noteq> []"
    using n by auto
  have r: "startRevealAnimation (displayCount (response_ok 1000000 None)) ?s
             = revealing 1000 1000 (response_ok 1000000 None)"
    by (simp add: revealing_def)
  show ?thesis
    using frames_to_completion[OF cv ne, of "displayCount (response_ok 1000000 None)"] cv ne n
    by (simp add: r answered_fields(3))
qed

subsection \<open>Monotone outputs\<close>




subsection \<open>The reveal order\<close>

text \<open>
  C1. \<^verbatim>\<open>Math.random()\<close> returns a double that is at least 0 and below 1. On a canvas
  of width \<open>W\<close> and height \<open>H\<close>, the nested loops of \<^verbatim>\<open>initRevealDots\<close> produce
  \<open>W * H\<close> cells in row-major order, each pair \<open>(x, y)\<close> with \<open>x < W\<close> and \<open>y < H\<close>
  exactly once and no other; \<^verbatim>\<open>initRevealDots\<close> returns \<open>W * H\<close>, and the shuffled array
  it stores has the same elements with the same multiplicities. The reveal that
  \<^verbatim>\<open>startRevealAnimation\<close> then runs ends with a canvas on which the
  \<^verbatim>\<open>clearRect\<close> calls since the covering paint are exactly the cells of the stored
  array, in its order: each pixel of the canvas has been cleared once.
\<close>

theorem every_cell_cleared_once:
  assumes "\<forall>i. is_double (rnd i) \<and> 0 \<le> rnd i \<and> rnd i < 1" and "canvasRef s = Some cv"
  shows "length (grid (width cv) (height cv)) = width cv * height cv
       \<and> (\<forall>px py. count_list (grid (width cv) (height cv)) \<lparr>dot_x = px, dot_y = py\<rparr>
                     = (if px < width cv \<and> py < height cv then 1 else 0))
       \<and> (\<forall>px py. px < width cv \<and> py < height cv \<longrightarrow>
              grid (width cv) (height cv) ! (py * width cv + px) = \<lparr>dot_x = px, dot_y = py\<rparr>)
       \<and> snd (initRevealDots rnd s) = Some (width cv * height cv)
       \<and> length (dotsRef (fst (initRevealDots rnd s))) = width cv * height cv
       \<and> mset (dotsRef (fst (initRevealDots rnd s))) = mset (grid (width cv) (height cv))
       \<and> map_option cleared
             (canvasRef (last (run_reveal (nextHandle s)
                (startRevealAnimation tc (fst (initRevealDots rnd s))))))
           = Some (map pixel (dotsRef (fst (initRevealDots rnd s))))
       \<and> (\<forall>px py. map_option (\<lambda>c. count_list (cleared c) (px, py))
             (canvasRef (last (run_reveal (nextHandle s)
                (startRevealAnimation tc (fst (initRevealDots rnd s))))))
           = Some (if px < width cv \<and> py < height cv then 1 else 0))"
proof -
  let ?s1 = "fst (initRevealDots rnd s)"
  let ?ds = "dotsRef ?s1"
  let ?s2 = "startRevealAnimation tc ?s1"
  let ?cb = "\<lparr>dots = ?ds, currentIndex = 0, totalCount = tc\<rparr>"
  note f = initRevealDots_fields[OF assms(2), of rnd]
  have ms: "mset ?ds = mset (grid (width cv) (height cv))"
    using assms(1) by (simp add: f(1) mset_shuffle)
  have fr: "frames ?s2 (nextHandle s) = Some ?cb"
    using startRevealAnimation_Some[OF f(2), of tc] by (simp add: f(3))
  have "canvasRef (last (run_reveal (nextHandle s) ?s2))
          = Some (clear_dots ?ds 0 (length ?ds) (fillRect cv))"
    using last_run_reveal(4)[OF fr] by (simp add: startRevealAnimation_unchanged f(2))
  then have log: "map_option cleared (canvasRef (last (run_reveal (nextHandle s) ?s2)))
          = Some (map pixel ?ds)"
    using cleared_clear_dots_take[of 0 "length ?ds" ?ds "fillRect cv"]
    by (simp add: fillRect_def)
  have once: "map_option (\<lambda>c. count_list (cleared c) (px, py))
             (canvasRef (last (run_reveal (nextHandle s) ?s2)))
           = Some (if px < width cv \<and> py < height cv then 1 else 0)" for px py
  proof -
    obtain c where c: "canvasRef (last (run_reveal (nextHandle s) ?s2)) = Some c"
      and cl: "cleared c = map pixel ?ds"
      using log by auto
    show ?thesis
      using count_list_pixels[OF ms, of px py] by (simp add: c cl)
  qed
  have len: "length ?ds = width cv * height cv"
    by (simp add: f(1))
  show ?thesis
    using count_list_grid[of "width cv" "height cv"] nth_grid[of _ "width cv" _ "height cv"]
      f(5) len ms log once
    by simp
qed

text \<open>C1, at a 2 by 2 canvas with a random source that always returns one half.\<close>

theorem every_cell_cleared_once_witness:
  "(\<forall>i. is_double (rnd_half i) \<and> 0 \<le> rnd_half i \<and> rnd_half i < 1)
   \<and> canvasRef (two_colours 2 2)
       = Some \<lparr>width = 2, height = 2, filled = False, cleared = []\<rparr>
   \<and> snd (initRevealDots rnd_half (two_colours 2 2)) = Some 4
   \<and> dotsRef (fst (initRevealDots rnd_half (two_colours 2 2)))
       = [\<lparr>dot_x = 0, dot_y = 0\<rparr>, \<lparr>dot_x = 1, dot_y = 1\<rparr>,
          \<lparr>dot_x = 1, dot_y = 0\<rparr>, \<lparr>dot_x = 0, dot_y = 1\<rparr>]
   \<and> map_option cleared
         (canvasRef (last (run_reveal 1
            (startRevealAnimation 7 (fst (initRevealDots rnd_half (two_colours 2 2)))))))
       = Some [(0, 0), (1, 1), (1, 0), (0, 1)]"
proof -
  let ?cv = "\<lparr>width = 2, height = 2, filled = False, cleared = []\<rparr>"
  have r: "\<forall>i. is_double (rnd_half i) \<and> 0 \<le> rnd_half i \<and> rnd_half i < 1"
    by (rule rnd_half_source)
  have cv: "canvasRef (two_colours 2 2) = Some ?cv"
    by (simp add: two_colours_eq initial_page_def)
  have nx: "nextHandle (two_colours 2 2) = 1"
    by (simp add: two_colours_eq initial_page_def)
  have ds: "dotsRef (fst (initRevealDots rnd_half (two_colours 2 2)))
       = [\<lparr>dot_x = 0, dot_y = 0\<rparr>, \<lparr>dot_x = 1, dot_y = 1\<rparr>,
          \<lparr>dot_x = 1, dot_y = 0\<rparr>, \<lparr>dot_x = 0, dot_y = 1\<rparr>]"
    using initRevealDots_fields(1)[OF cv, of rnd_half] by (simp add: shuffle_2_2)
  show ?thesis
    using r cv ds every_cell_cleared_once[OF r cv, of 7]
    by (simp add: nx pixel_def)
qed

subsection \<open>The shuffle\<close>




subsection \<open>Error responses\<close>

text \<open>
  C8. When the parsed response has an \<^verbatim>\<open>error\<close> field, \<^verbatim>\<open>handleGeneratePalette\<close>
  stores that text, unchanged, as the error to display, ends the generating state and
  returns: no image is created, so \<^verbatim>\<open>startRevealAnimation\<close> is never called, and the
  canvas, the scheduled callbacks, the preview and the revealing flag stay as they
  were. After a request sent from a page whose only scheduled callback is the one
  \<^verbatim>\<open>animationRef\<close> holds, this means: the canvas is the one \<^verbatim>\<open>initRevealDots\<close>
  painted, every pixel covered and no cell cleared, no callback is scheduled, and no
  frame clears anything.
\<close>

theorem error_response_starts_no_session:
  assumes "data_error data = Some e"
    and "2 \<le> card (selectedPaletteColors s0)" and "canvasRef s0 = Some cv"
    and "dom (frames s0) \<subseteq> {h. animationRef s0 = Some h \<and> h \<noteq> 0}"
  shows "snd (handleGeneratePalette_response now data s) = None
       \<and> paletteError (fst (handleGeneratePalette_response now data s)) = Some e
       \<and> \<not> isPaletteGenerating (fst (handleGeneratePalette_response now data s))
       \<and> canvasRef (fst (handleGeneratePalette_response now data s)) = canvasRef s
       \<and> frames (fst (handleGeneratePalette_response now data s)) = frames s
       \<and> isPaletteRevealing (fst (handleGeneratePalette_response now data s)) = isPaletteRevealing s
       \<and> palettePreview (fst (handleGeneratePalette_response now data s)) = palettePreview s
       \<and> snd (handleGeneratePalette_begin rnd s0)
       \<and> canvasRef (fst (handleGeneratePalette_response now data
             (fst (handleGeneratePalette_begin rnd s0)))) = Some (fillRect cv)
       \<and> cleared (fillRect cv) = []
       \<and> (\<forall>p. covered (fillRect cv) p)
       \<and> (\<forall>h. animationFrame h (fst (handleGeneratePalette_response now data
             (fst (handleGeneratePalette_begin rnd s0))))
           = fst (handleGeneratePalette_response now data (fst (handleGeneratePalette_begin rnd s0))))
       \<and> (\<forall>h. run_reveal h (fst (handleGeneratePalette_response now data
             (fst (handleGeneratePalette_begin rnd s0)))) = [])
       \<and> palettePreview (fst (handleGeneratePalette_response now data
             (fst (handleGeneratePalette_begin rnd s0)))) = None"
proof -
  have eq: "handleGeneratePalette_response now data t
              = (t\<lparr>paletteError := Some e, isPaletteGenerating := False\<rparr>, None)" for t
    using assms(1) by (simp add: handleGeneratePalette_response_def)
  have gen: "snd (handleGeneratePalette_response now data s) = None
       \<and> paletteError (fst (handleGeneratePalette_response now data s)) = Some e
       \<and> \<not> isPaletteGenerating (fst (handleGeneratePalette_response now data s))
       \<and> canvasRef (fst (handleGeneratePalette_response now data s)) = canvasRef s
       \<and> frames (fst (handleGeneratePalette_response now data s)) = frames s
       \<and> isPaletteRevealing (fst (handleGeneratePalette_response now data s)) = isPaletteRevealing s
       \<and> palettePreview (fst (handleGeneratePalette_response now data s)) = palettePreview s"
    by (simp add: eq)
  note f = handleGeneratePalette_begin_sent[OF assms(2,3,4), of rnd]
  let ?s2 = "fst (handleGeneratePalette_response now data (fst (handleGeneratePalette_begin rnd s0)))"
  have fr: "frames ?s2 h = None" for h
    using f(2) by (simp add: eq)
  have cv': "canvasRef ?s2 = Some (fillRect cv)"
    using f(3) by (simp add: eq)
  have pv': "palettePreview ?s2 = None"
    using f(7) by (simp add: eq)
  have cl: "cleared (fillRect cv) = []"
    by (simp add: fillRect_def)
  have cov: "\<forall>p. covered (fillRect cv) p"
    by (simp add: covered_fillRect)
  have af: "\<forall>h. animationFrame h ?s2 = ?s2"
    using animationFrame_idle[OF fr] by blast
  have rr: "\<forall>h. run_reveal h ?s2 = []"
    using run_reveal_idle[OF fr] by blast
  show ?thesis
    using gen f(1) cv' cl cov af rr pv' by (elim conjE) (intro conjI; assumption)
qed

text \<open>C8, at a 2 by 2 canvas and the error text of the generation route.\<close>

theorem error_response_starts_no_session_witness:
  "data_error (response_error ''Nombre de couleurs invalide (1-8 requis)'')
     = Some ''Nombre de couleurs invalide (1-8 requis)''
   \<and> snd (handleGeneratePalette_response ''0''
          (response_error ''Nombre de couleurs invalide (1-8 requis)'') (generating 2 2)) = None
   \<and> paletteError (fst (handleGeneratePalette_response ''0''
          (response_error ''Nombre de couleurs invalide (1-8 requis)'') (generating 2 2)))
       = Some ''Nombre de couleurs invalide (1-8 requis)''
   \<and> canvasRef (fst (handleGeneratePalette_response ''0''
          (response_error ''Nombre de couleurs invalide (1-8 requis)'') (generating 2 2)))
       = Some \<lparr>width = 2, height = 2, filled = True, cleared = []\<rparr>
   \<and> run_reveal 1 (fst (handleGeneratePalette_response ''0''
          (response_error ''Nombre de couleurs invalide (1-8 requis)'') (generating 2 2))) = []"
proof -
  let ?e = "''Nombre de couleurs invalide (1-8 requis)''"
  let ?cv = "\<lparr>width = 2, height = 2, filled = False, cleared = []\<rparr>"
  have e: "data_error (response_error ?e) = Some ?e"
    by (simp add: response_error_def)
  have a: "2 \<le> card (selectedPaletteColors (two_colours 2 2))"
    by (simp add: two_colours_eq)
  have b: "canvasRef (two_colours 2 2) = Some ?cv"
    by (simp add: two_colours_eq initial_page_def)
  have c: "dom (frames (two_colours 2 2))
             \<subseteq> {h. animationRef (two_colours 2 2) = Some h \<and> h \<noteq> 0}"
    by (simp add: two_colours_eq initial_page_def)
  show ?thesis
    using e error_response_starts_no_session[OF e a b c, of "''0''" "generating 2 2" rnd_half]
    by (simp add: fillRect_def generating_def[symmetric] generating_eq initial_page_def)
qed

subsection \<open>Cancellation\<close>

text \<open>
  C5 says that each of the three triggers cancels the scheduled callback, discards
  the session and repaints the canvas. \<^verbatim>\<open>handleGeneratePalette\<close> cancels the callback
  and, like \<^verbatim>\<open>togglePaletteColor\<close>, repaints the canvas, and the buttons of both are
  disabled while a reveal runs. The handlers of the mode buttons reset the preview,
  the result, the count and the progress, but call neither
  \<^verbatim>\<open>cancelAnimationFrame\<close> nor \<^verbatim>\<open>fillRect\<close>, and the mode buttons are never
  disabled. In the middle of the reveal on the 800 by 800 canvas, after the first
  frame, in mode \<open>Nuages\<close>, a click on the button \<open>Brumes\<close> leaves the callback with
  handle 2 scheduled, the session revealing and the 3200 cleared pixels cleared; the
  next frame clears 3200 more, sets the count to 11855 and reschedules itself.
\<close>

theorem mode_toggle_leaves_reveal_running:
  "isPaletteRevealing mid_reveal
   \<and> rencontresMode mid_reveal = Nuages
   \<and> colorButtonsDisabled mid_reveal
   \<and> generateButtonDisabled mid_reveal
   \<and> rencontresMode (setMode Brumes mid_reveal) = Brumes
   \<and> isPaletteRevealing (setMode Brumes mid_reveal)
   \<and> frames mid_reveal 2
       = Some \<lparr>dots = shuffle rnd_half (grid 800 800), currentIndex = 3200,
                 totalCount = 1185512\<rparr>
   \<and> frames (setMode Brumes mid_reveal) 2
       = Some \<lparr>dots = shuffle rnd_half (grid 800 800), currentIndex = 3200,
                 totalCount = 1185512\<rparr>
   \<and> paletteCount (setMode Brumes mid_reveal) = Fin 0
   \<and> map_option cleared (canvasRef (setMode Brumes mid_reveal))
       = Some (map pixel (take 3200 (shuffle rnd_half (grid 800 800))))
   \<and> map_option cleared (canvasRef (animationFrame 2 (setMode Brumes mid_reveal)))
       = Some (map pixel (take 6400 (shuffle rnd_half (grid 800 800))))
   \<and> paletteCount (animationFrame 2 (setMode Brumes mid_reveal)) = Fin 11855
   \<and> frames (animationFrame 2 (setMode Brumes mid_reveal)) 3
       = Some \<lparr>dots = shuffle rnd_half (grid 800 800), currentIndex = 6400,
                 totalCount = 1185512\<rparr>"
proof -
  let ?ds = "shuffle rnd_half (grid 800 800)"
  let ?cv = "\<lparr>width = 800, height = 800, filled = True, cleared = []\<rparr>"
  let ?cb = "\<lparr>dots = ?ds, currentIndex = 3200, totalCount = 1185512\<rparr>"
  let ?s = "setMode Brumes mid_reveal"
  have a: "isPaletteRevealing mid_reveal"
    by (simp add: mid_reveal_eq revealing_eq)
  have a1: "rencontresMode mid_reveal = Nuages"
    by (simp add: mid_reveal_eq revealing_eq generating_eq initial_page_def)
  have a2: "colorButtonsDisabled mid_reveal" and a3: "generateButtonDisabled mid_reveal"
    using a by (simp_all add: colorButtonsDisabled_def generateButtonDisabled_def)
  have a4: "rencontresMode (setMode Brumes mid_reveal) = Brumes"
    and a5: "isPaletteRevealing (setMode Brumes mid_reveal)"
    using a by (simp_all add: setMode_Brumes_mid_reveal)
  have b: "frames mid_reveal 2 = Some ?cb"
    by (simp add: mid_reveal_eq)
  have fr: "frames ?s 2 = Some ?cb"
    by (subst setMode_Brumes_mid_reveal) (simp add: mid_reveal_eq)
  have c: "paletteCount ?s = Fin 0"
    by (simp add: setMode_Brumes_mid_reveal)
  have cv: "canvasRef ?s = Some (clear_dots ?ds 0 3200 ?cv)"
    by (subst setMode_Brumes_mid_reveal) (simp add: mid_reveal_eq)
  have d: "map_option cleared (canvasRef ?s) = Some (map pixel (take 3200 ?ds))"
    using cleared_clear_dots_take[of 0 3200 ?ds ?cv] by (simp add: cv)
  have re: "currentIndex ?cb + dotsPerFrame (dots ?cb) < length (dots ?cb)"
    by (simp add: dotsPerFrame_def)
  have cv2: "canvasRef (animationFrame 2 ?s) = Some (clear_dots ?ds 0 6400 ?cv)"
    using clear_dots_clear_dots[of 0 3200 6400 ?ds ?cv]
    by (subst animationFrame_resched[OF fr re]) (simp add: cv dotsPerFrame_def)
  have e: "map_option cleared (canvasRef (animationFrame 2 ?s))
             = Some (map pixel (take 6400 ?ds))"
    using cleared_clear_dots_take[of 0 6400 ?ds ?cv] by (simp add: cv2)
  have f: "paletteCount (animationFrame 2 ?s) = Fin 11855"
    by (subst animationFrame_resched[OF fr re]) (simp add: dotsPerFrame_def revealed_of_6400)
  have nx: "nextHandle ?s = 3"
    by (subst setMode_Brumes_mid_reveal) (simp add: mid_reveal_eq)
  have g: "frames (animationFrame 2 ?s) 3
       = Some \<lparr>dots = ?ds, currentIndex = 6400, totalCount = 1185512\<rparr>"
    by (subst animationFrame_resched[OF fr re]) (simp add: dotsPerFrame_def nx)
  show ?thesis
    using a a1 a2 a3 a4 a5 b fr c d e f g by (intro conjI)
qed

end
